theory Spec2Isabelle
  imports Main "HOL-Library.List_Lexorder" "HOL-Library.Sublist" "HOL-Library.Multiset"
begin

section \<open>Python values\<close>

text \<open>
  A Python \<open>str\<close> is a sequence of Unicode code points: slicing (\<open>stmt[:80]\<close>),
  \<open>strip\<close> and the comparison used by \<open>sorted\<close> all work on code points. A string is
  therefore a list of code points, and \<open>lit\<close> turns an ASCII literal into one.
\<close>

type_synonym str = "nat list"

definition lit :: "string \<Rightarrow> str" where
  "lit cs = map of_char cs"

text \<open>The code points for which \<open>str.isspace\<close> holds; \<open>str.strip()\<close> removes them at both ends.\<close>

definition isspace :: "nat \<Rightarrow> bool" where
  "isspace c \<longleftrightarrow>
     (9 \<le> c \<and> c \<le> 13) \<or> (28 \<le> c \<and> c \<le> 32) \<or> c = 133 \<or> c = 160 \<or> c = 5760 \<or>
     (8192 \<le> c \<and> c \<le> 8202) \<or> c = 8232 \<or> c = 8233 \<or> c = 8239 \<or> c = 8287 \<or> c = 12288"

definition strip :: "str \<Rightarrow> str" where
  "strip s = rev (dropWhile isspace (rev (dropWhile isspace s)))"

text \<open>\<open>s.split(d)\<close> for a one-character separator: always at least one piece.\<close>

fun split_on :: "nat \<Rightarrow> str \<Rightarrow> str list" where
  "split_on d [] = [[]]"
| "split_on d (c # cs) =
     (if c = d then [] # split_on d cs
      else (case split_on d cs of [] \<Rightarrow> [[c]] | x # xs \<Rightarrow> (c # x) # xs))"

text \<open>
  Exceptions carry the text that \<open>str(e)\<close> gives. \<open>ValueError\<close> comes from \<open>int()\<close>,
  \<open>ModuleNotFoundError\<close> from an \<open>import\<close>, \<open>DBError\<close> from a driver call.
\<close>

datatype exn = ValueError str | ModuleNotFoundError str | DBError str

fun message :: "exn \<Rightarrow> str" where
  "message (ValueError m) = m"
| "message (ModuleNotFoundError m) = m"
| "message (DBError m) = m"

text \<open>
  \<open>int(s)\<close> on a string: surrounding whitespace is stripped, one sign is allowed, then
  decimal digits, with single underscores between digits. (Python also accepts the
  decimal digits of other scripts; they are rejected here.)
\<close>

definition isdigit :: "nat \<Rightarrow> bool" where
  "isdigit c \<longleftrightarrow> 48 \<le> c \<and> c \<le> 57"

fun parse_digits :: "str \<Rightarrow> bool \<Rightarrow> int \<Rightarrow> int option" where
  "parse_digits [] prev acc = (if prev then Some acc else None)"
| "parse_digits (c # cs) prev acc =
     (if isdigit c then parse_digits cs True (acc * 10 + int (c - 48))
      else if c = 95 \<and> prev \<and> cs \<noteq> [] \<and> isdigit (hd cs) then parse_digits cs False acc
      else None)"

definition py_int :: "str \<Rightarrow> exn + int" where
  "py_int s =
     (let t = strip s;
          neg = (t \<noteq> [] \<and> hd t = 45);
          body = (if t \<noteq> [] \<and> (hd t = 45 \<or> hd t = 43) then tl t else t)
      in case parse_digits body False 0 of
           None \<Rightarrow> Inl (ValueError (lit ''invalid literal for int() with base 10: '' @ [39] @ s @ [39]))
         | Some v \<Rightarrow> Inr (if neg then - v else v))"

section \<open>Configuration\<close>

text \<open>\<open>os.environ.get(k, d)\<close>.\<close>

definition environ_get :: "(str \<rightharpoonup> str) \<Rightarrow> str \<Rightarrow> str \<Rightarrow> str" where
  "environ_get env k d = (case env k of None \<Rightarrow> d | Some v \<Rightarrow> v)"

record cfg =
  host :: str
  port :: int
  user :: str
  password :: str
  database :: str

text \<open>\<open>mysql_config\<close>: the only step that can raise is \<open>int()\<close> on \<open>MYSQL_PORT\<close>.\<close>

definition mysql_config :: "(str \<rightharpoonup> str) \<Rightarrow> exn + cfg" where
  "mysql_config env =
     (case py_int (environ_get env (lit ''MYSQL_PORT'') (lit ''3306'')) of
        Inl e \<Rightarrow> Inl e
      | Inr p \<Rightarrow> Inr \<lparr> host = environ_get env (lit ''MYSQL_HOST'') (lit ''127.0.0.1''),
                      port = p,
                      user = environ_get env (lit ''MYSQL_USER'') (lit ''root''),
                      password = environ_get env (lit ''MYSQL_PASSWORD'') (lit ''root@123''),
                      database = environ_get env (lit ''MYSQL_DB'') (lit ''todolist'') \<rparr>)"

section \<open>The database server\<close>

text \<open>
  The contents of the configured database, as far as the migration run reads or writes
  them: the rows of \<open>schema_migrations\<close> (their names, in insertion order), the rows of
  \<open>users\<close>, and the values the \<open>users.role\<close> column accepts. \<open>None\<close> stands for a table
  (or the column) that does not exist.
\<close>

record user_row =
  username :: str
  email :: str
  password_hash :: str
  role :: "str option"

record dbstate =
  schema_migrations :: "str list option"
  users :: "user_row list option"
  role_domain :: "str list option"

definition empty_db :: dbstate where
  "empty_db = \<lparr> schema_migrations = None, users = None, role_domain = None \<rparr>"

text \<open>
  The statements the program sends. Each constructor stands for one SQL text of the source:
  \<^item> \<open>CreateDatabase n\<close>: \<^verbatim>\<open>CREATE DATABASE IF NOT EXISTS `n` CHARACTER SET utf8mb4 COLLATE utf8mb4_unicode_ci\<close>
  \<^item> \<open>CreateTrackingTable\<close>: \<^verbatim>\<open>CREATE TABLE IF NOT EXISTS schema_migrations (...)\<close>
  \<^item> \<open>SelectMigration n\<close>: \<^verbatim>\<open>SELECT 1 FROM schema_migrations WHERE name=%s\<close> with \<open>(n,)\<close>
  \<^item> \<open>InsertMigration n\<close>: \<^verbatim>\<open>INSERT INTO schema_migrations (name) VALUES (%s)\<close> with \<open>(n,)\<close>
  \<^item> \<open>SelectUser u\<close>: \<^verbatim>\<open>SELECT id FROM users WHERE username=%s\<close> with \<open>(u,)\<close>
  \<^item> \<open>InsertUser u e h (Some r)\<close>: \<^verbatim>\<open>INSERT INTO users (username, email, password_hash, role) VALUES (%s, %s, %s, %s)\<close>
  \<^item> \<open>InsertUser u e h None\<close>: \<^verbatim>\<open>INSERT INTO users (username, email, password_hash) VALUES (%s, %s, %s)\<close>
  \<^item> \<open>Raw s\<close>: a statement \<open>s\<close> taken from a migration file.
\<close>

datatype query =
    CreateDatabase str
  | CreateTrackingTable
  | SelectMigration str
  | InsertMigration str
  | SelectUser str
  | InsertUser str str str "str option"
  | Raw str

text \<open>
  What the server does with a statement on a selected database: an error, or the number
  of rows in the result set and the new contents. The meaning of an arbitrary migration
  statement is the server's, so it is a parameter \<open>eng\<close>. The tracking table has a unique
  \<open>name\<close>; \<open>users\<close> has a unique \<open>username\<close> and a unique \<open>email\<close>.
\<close>

fun run_query :: "(str \<Rightarrow> dbstate \<Rightarrow> exn + dbstate) \<Rightarrow> query \<Rightarrow> dbstate \<Rightarrow> exn + nat \<times> dbstate" where
  "run_query eng (CreateDatabase n) d = Inr (0, d)"
| "run_query eng CreateTrackingTable d =
     Inr (0, case schema_migrations d of None \<Rightarrow> d\<lparr>schema_migrations := Some []\<rparr> | Some ns \<Rightarrow> d)"
| "run_query eng (SelectMigration n) d =
     (case schema_migrations d of
        None \<Rightarrow> Inl (DBError (lit ''Table schema_migrations does not exist''))
      | Some ns \<Rightarrow> Inr (length (filter (\<lambda>m. m = n) ns), d))"
| "run_query eng (InsertMigration n) d =
     (case schema_migrations d of
        None \<Rightarrow> Inl (DBError (lit ''Table schema_migrations does not exist''))
      | Some ns \<Rightarrow>
          if n \<in> set ns then Inl (DBError (lit ''Duplicate entry for key name''))
          else Inr (0, d\<lparr>schema_migrations := Some (ns @ [n])\<rparr>))"
| "run_query eng (SelectUser u) d =
     (case users d of
        None \<Rightarrow> Inl (DBError (lit ''Table users does not exist''))
      | Some us \<Rightarrow> Inr (length (filter (\<lambda>r. username r = u) us), d))"
| "run_query eng (InsertUser u e h r) d =
     (case users d of
        None \<Rightarrow> Inl (DBError (lit ''Table users does not exist''))
      | Some us \<Rightarrow>
          if u \<in> set (map username us) then Inl (DBError (lit ''Duplicate entry for key username''))
          else if e \<in> set (map email us) then Inl (DBError (lit ''Duplicate entry for key email''))
          else (case r of
                  None \<Rightarrow> Inr (0, d\<lparr>users := Some (us @ [\<lparr>username = u, email = e, password_hash = h, role = None\<rparr>])\<rparr>)
                | Some v \<Rightarrow>
                    (case role_domain d of
                       None \<Rightarrow> Inl (DBError (lit ''Unknown column role''))
                     | Some vals \<Rightarrow>
                         if v \<in> set vals
                         then Inr (0, d\<lparr>users := Some (us @ [\<lparr>username = u, email = e, password_hash = h, role = Some v\<rparr>])\<rparr>)
                         else Inl (DBError (lit ''Data truncated for column role'')))))"
| "run_query eng (Raw s) d = (case eng s d of Inl e \<Rightarrow> Inl e | Inr d' \<Rightarrow> Inr (0, d'))"

section \<open>The world outside the process\<close>

datatype driver = PyMySQL | MySQLConnector

text \<open>Every call into a driver is recorded, in order. Connections are numbered.\<close>

datatype call =
    Connect driver "str option"
  | Cursor nat
  | Execute nat query
  | Commit nat
  | Close nat

text \<open>
  \<^item> \<open>environ\<close>: \<open>os.environ\<close>;
  \<^item> \<open>installed\<close>: whether \<open>import pymysql\<close> / \<open>import mysql.connector\<close> succeeds;
  \<^item> \<open>migrations_dir\<close>: the entries of the \<open>migrations\<close> directory, name and text, in
    the order the directory listing gives them;
  \<^item> \<open>hasher\<close>: \<open>generate_password_hash\<close>;
  \<^item> \<open>target\<close>: the database named by the configuration, \<open>None\<close> if the server has none;
  \<^item> \<open>engine\<close>: the server's meaning of the statements found in migration files;
  \<^item> \<open>faults\<close>: a driver call can also fail for reasons of its own (server unreachable,
    credentials refused, privileges, a dropped link): the \<open>n\<close>-th driver call of the
    world's history raises \<open>e\<close> when \<open>faults n = Some e\<close>;
  \<^item> \<open>calls\<close>: the driver calls made so far; \<open>next_conn\<close>, \<open>open_conns\<close>: the connection
    numbers handed out and those not yet closed; \<open>stdout\<close>: the lines printed.
  \<open>commit\<close> is a driver call that can fail; writes are visible as soon as they are made.
\<close>

record world =
  environ :: "str \<rightharpoonup> str"
  installed :: "driver \<Rightarrow> bool"
  migrations_dir :: "(str \<times> str) list"
  hasher :: "str \<Rightarrow> str"
  target :: "dbstate option"
  engine :: "str \<Rightarrow> dbstate \<Rightarrow> exn + dbstate"
  faults :: "nat \<Rightarrow> exn option"
  calls :: "call list"
  next_conn :: nat
  open_conns :: "nat list"
  stdout :: "str list"

text \<open>A computation either raises or returns, and changes the world.\<close>

type_synonym 'a io = "world \<Rightarrow> (exn + 'a) \<times> world"

definition ret :: "'a \<Rightarrow> 'a io" where
  "ret a w = (Inr a, w)"

definition raise :: "exn \<Rightarrow> 'a io" where
  "raise e w = (Inl e, w)"

definition and_then :: "'a io \<Rightarrow> ('a \<Rightarrow> 'b io) \<Rightarrow> 'b io" where
  "and_then m f w = (case m w of (Inl e, w') \<Rightarrow> (Inl e, w') | (Inr a, w') \<Rightarrow> f a w')"

text \<open>\<open>try: m except Exception as e: h e\<close>.\<close>

definition try_except :: "'a io \<Rightarrow> (exn \<Rightarrow> 'a io) \<Rightarrow> 'a io" where
  "try_except m h w = (case m w of (Inl e, w') \<Rightarrow> h e w' | (Inr a, w') \<Rightarrow> (Inr a, w'))"

definition print :: "str \<Rightarrow> unit io" where
  "print s w = (Inr (), w\<lparr>stdout := stdout w @ [s]\<rparr>)"

text \<open>A driver call is recorded, then fails if the fault plan says so, else does its work.\<close>

definition driver_call :: "call \<Rightarrow> 'a io \<Rightarrow> 'a io" where
  "driver_call c body w =
     (let w' = w\<lparr>calls := calls w @ [c]\<rparr>
      in case faults w (length (calls w)) of Some e \<Rightarrow> (Inl e, w') | None \<Rightarrow> body w')"

definition import_driver :: "driver \<Rightarrow> unit io" where
  "import_driver drv w =
     (if installed w drv then (Inr (), w)
      else (Inl (ModuleNotFoundError (lit ''No module named '' @
              (case drv of PyMySQL \<Rightarrow> lit ''pymysql'' | MySQLConnector \<Rightarrow> lit ''mysql''))), w))"

text \<open>
  \<open>drv.connect(...)\<close>, with \<open>database=\<close> when \<open>db\<close> is \<open>Some n\<close>: selecting a database
  that does not exist is an error.
\<close>

definition connect :: "driver \<Rightarrow> str option \<Rightarrow> nat io" where
  "connect drv db =
     driver_call (Connect drv db)
       (\<lambda>w. if db \<noteq> None \<and> target w = None then (Inl (DBError (lit ''Unknown database'')), w)
            else (Inr (next_conn w),
                  w\<lparr>next_conn := Suc (next_conn w), open_conns := open_conns w @ [next_conn w]\<rparr>))"

text \<open>A cursor is identified with its connection.\<close>

definition cursor :: "nat \<Rightarrow> nat io" where
  "cursor c = driver_call (Cursor c) (ret c)"

text \<open>
  \<open>cur.execute(q)\<close>, returning the size of the result set (all the program asks of
  \<open>fetchone()\<close> is whether there is a row).
\<close>

definition execute :: "nat \<Rightarrow> query \<Rightarrow> nat io" where
  "execute c q =
     driver_call (Execute c q)
       (\<lambda>w. case q of
              CreateDatabase n \<Rightarrow>
                (Inr 0, w\<lparr>target := Some (case target w of None \<Rightarrow> empty_db | Some d \<Rightarrow> d)\<rparr>)
            | _ \<Rightarrow>
                (case target w of
                   None \<Rightarrow> (Inl (DBError (lit ''No database selected'')), w)
                 | Some d \<Rightarrow>
                     (case run_query (engine w) q d of
                        Inl e \<Rightarrow> (Inl e, w)
                      | Inr (n, d') \<Rightarrow> (Inr n, w\<lparr>target := Some d'\<rparr>))))"

definition commit :: "nat \<Rightarrow> unit io" where
  "commit c = driver_call (Commit c) (ret ())"

definition close :: "nat \<Rightarrow> unit io" where
  "close c = driver_call (Close c) (\<lambda>w. (Inr (), w\<lparr>open_conns := removeAll c (open_conns w)\<rparr>))"

section \<open>migrate.py\<close>

text \<open>
  The body of one of the two outer \<open>try\<close> blocks of \<open>connect_mysql\<close>, which differ only in
  the driver. \<open>Some c\<close> is \<open>return c\<close>; \<open>None\<close> is falling out of the inner \<open>except\<close> when
  \<open>create_db_if_missing\<close> is false.
\<close>

definition connect_with :: "driver \<Rightarrow> cfg \<Rightarrow> bool \<Rightarrow> nat option io" where
  "connect_with drv c create_db_if_missing =
     and_then (import_driver drv) (\<lambda>_.
       try_except
         (and_then (connect drv (Some (database c))) (\<lambda>conn. ret (Some conn)))
         (\<lambda>_. if create_db_if_missing then
                 and_then (connect drv None) (\<lambda>tmp.
                 and_then (cursor tmp) (\<lambda>cur.
                 and_then (execute cur (CreateDatabase (database c))) (\<lambda>_.
                 and_then (commit tmp) (\<lambda>_.
                 and_then (close tmp) (\<lambda>_.
                 and_then (connect drv (Some (database c))) (\<lambda>conn. ret (Some conn)))))))
               else ret None))"

text \<open>
  \<open>connect_mysql\<close>: the configuration is read outside both \<open>try\<close> blocks; each block
  swallows whatever its body raises (\<open>except Exception: pass\<close>).
\<close>

definition connect_mysql :: "bool \<Rightarrow> nat option io" where
  "connect_mysql create_db_if_missing w =
     (case mysql_config (environ w) of
        Inl e \<Rightarrow> (Inl e, w)
      | Inr c \<Rightarrow>
          and_then (try_except (connect_with PyMySQL c create_db_if_missing) (\<lambda>_. ret None))
            (\<lambda>r. case r of
                   Some conn \<Rightarrow> ret (Some conn)
                 | None \<Rightarrow>
                     and_then (try_except (connect_with MySQLConnector c create_db_if_missing) (\<lambda>_. ret None))
                       (\<lambda>r. case r of Some conn \<Rightarrow> ret (Some conn) | None \<Rightarrow> ret None)) w)"

text \<open>\<open>root.glob("*.sql")\<close> keeps the names that end in \<open>.sql\<close>; \<open>sorted\<close> orders paths of
  one directory by name.\<close>

definition is_sql :: "str \<Rightarrow> bool" where
  "is_sql n \<longleftrightarrow> 4 \<le> length n \<and> drop (length n - 4) n = lit ''.sql''"

definition load_migrations :: "(str \<times> str) list \<Rightarrow> (str \<times> str) list" where
  "load_migrations dir = sort_key fst (filter (\<lambda>p. is_sql (fst p)) dir)"

definition already_applied :: "nat \<Rightarrow> str \<Rightarrow> bool io" where
  "already_applied cur name =
     try_except (and_then (execute cur (SelectMigration name)) (\<lambda>n. ret (0 < n)))
                (\<lambda>_. ret False)"

text \<open>\<open>[s.strip() for s in sql.split(";") if s.strip()]\<close>\<close>

definition statements :: "str \<Rightarrow> str list" where
  "statements sql = filter (\<lambda>s. s \<noteq> []) (map strip (split_on 59 sql))"

definition line_warn_stmt :: "str \<Rightarrow> str \<Rightarrow> exn \<Rightarrow> str" where
  "line_warn_stmt name stmt e =
     lit ''Warning: failed statement in '' @ name @ lit '': '' @ take 80 stmt @ lit ''... ('' @ message e @ lit '')''"

text \<open>The \<open>for stmt in ...\<close> loop of \<open>apply_migration\<close>.\<close>

fun run_statements :: "nat \<Rightarrow> str \<Rightarrow> str list \<Rightarrow> unit io" where
  "run_statements cur name [] = ret ()"
| "run_statements cur name (stmt # stmts) =
     and_then (try_except (and_then (execute cur (Raw stmt)) (\<lambda>_. ret ()))
                          (\<lambda>e. print (line_warn_stmt name stmt e)))
              (\<lambda>_. run_statements cur name stmts)"

definition apply_migration :: "nat \<Rightarrow> str \<times> str \<Rightarrow> unit io" where
  "apply_migration conn path =
     and_then (cursor conn) (\<lambda>cur.
     and_then (run_statements cur (fst path) (statements (snd path))) (\<lambda>_.
     and_then (execute cur (InsertMigration (fst path))) (\<lambda>_.
     commit conn)))"

definition line_conn_failed :: str where
  "line_conn_failed = lit ''Database connection failed. Check env and drivers.''"

definition line_skipping :: "str \<Rightarrow> str" where
  "line_skipping name = lit ''Skipping '' @ name @ lit '' (already applied)''"

text \<open>The line ends in the horizontal ellipsis U+2026.\<close>

definition line_applying :: "str \<Rightarrow> str" where
  "line_applying name = lit ''Applying '' @ name @ [8230]"

definition line_complete :: str where
  "line_complete = lit ''Migrations complete.''"

definition line_admin_created :: str where
  "line_admin_created = lit ''Admin user created: username=admin (use ADMIN_PASSWORD env to override default)''"

definition line_warn_admin :: "exn \<Rightarrow> str" where
  "line_warn_admin e = lit ''Warning: failed to ensure admin user: '' @ message e"

text \<open>The \<open>for path in load_migrations()\<close> loop of \<open>main\<close>.\<close>

fun apply_pending :: "nat \<Rightarrow> nat \<Rightarrow> (str \<times> str) list \<Rightarrow> unit io" where
  "apply_pending conn cur [] = ret ()"
| "apply_pending conn cur (path # paths) =
     and_then (already_applied cur (fst path)) (\<lambda>applied.
       if applied then
         and_then (print (line_skipping (fst path))) (\<lambda>_. apply_pending conn cur paths)
       else
         and_then (print (line_applying (fst path))) (\<lambda>_.
         and_then (apply_migration conn path) (\<lambda>_. apply_pending conn cur paths)))"

text \<open>The block of \<open>main\<close> under the comment \<open>Ensure admin user exists\<close>.\<close>

definition ensure_admin :: "nat \<Rightarrow> nat \<Rightarrow> unit io" where
  "ensure_admin conn cur =
     try_except
       (and_then (execute cur (SelectUser (lit ''admin''))) (\<lambda>exists.
          if exists = 0 then
            (\<lambda>w. (let admin_password = environ_get (environ w) (lit ''ADMIN_PASSWORD'') (lit ''admin@123'');
                       admin_hash = hasher w admin_password
                   in and_then
                        (try_except
                           (execute cur (InsertUser (lit ''admin'') (lit ''admin@example.com'') admin_hash (Some (lit ''admin''))))
                           (\<lambda>_. execute cur (InsertUser (lit ''admin'') (lit ''admin@example.com'') admin_hash None)))
                        (\<lambda>_. and_then (commit conn) (\<lambda>_. print line_admin_created))) w)
          else ret ()))
       (\<lambda>e. print (line_warn_admin e))"

definition main :: "unit io" where
  "main =
     and_then (connect_mysql True) (\<lambda>r. case r of
         None \<Rightarrow> print line_conn_failed
       | Some conn \<Rightarrow>
           and_then (cursor conn) (\<lambda>cur.
           and_then (execute cur CreateTrackingTable) (\<lambda>_.
           and_then (commit conn) (\<lambda>_.
           and_then (\<lambda>w. apply_pending conn cur (load_migrations (migrations_dir w)) w) (\<lambda>_.
           and_then (print line_complete) (\<lambda>_.
           ensure_admin conn cur))))))"

section \<open>Observations of a run\<close>

text \<open>The names recorded in \<open>schema_migrations\<close>, if the database and the table exist.\<close>

definition tracking :: "world \<Rightarrow> str list option" where
  "tracking w = (case target w of None \<Rightarrow> None | Some d \<Rightarrow> schema_migrations d)"

definition recorded :: "world \<Rightarrow> str list" where
  "recorded w = (case tracking w of None \<Rightarrow> [] | Some ns \<Rightarrow> ns)"

text \<open>The number of \<open>users\<close> rows with the reserved username.\<close>

definition admin_rows :: "world \<Rightarrow> nat" where
  "admin_rows w =
     (case target w of
        None \<Rightarrow> 0
      | Some d \<Rightarrow> (case users d of None \<Rightarrow> 0 | Some us \<Rightarrow> length (filter (\<lambda>r. username r = lit ''admin'') us)))"

text \<open>The driver calls and the lines printed between two worlds of one history.\<close>

definition new_calls :: "world \<Rightarrow> world \<Rightarrow> call list" where
  "new_calls w w' = drop (length (calls w)) (calls w')"

definition new_lines :: "world \<Rightarrow> world \<Rightarrow> str list" where
  "new_lines w w' = drop (length (stdout w)) (stdout w')"

text \<open>The names looked up, and the names inserted, in \<open>schema_migrations\<close> by a sequence of calls.\<close>

fun lookup_of :: "call \<Rightarrow> str option" where
  "lookup_of (Execute c (SelectMigration n)) = Some n"
| "lookup_of _ = None"

fun record_of :: "call \<Rightarrow> str option" where
  "record_of (Execute c (InsertMigration n)) = Some n"
| "record_of _ = None"

fun statement_of :: "call \<Rightarrow> str option" where
  "statement_of (Execute c (Raw s)) = Some s"
| "statement_of _ = None"

definition lookups :: "call list \<Rightarrow> str list" where
  "lookups cs = List.map_filter lookup_of cs"

definition records :: "call list \<Rightarrow> str list" where
  "records cs = List.map_filter record_of cs"

definition raw_statements :: "call list \<Rightarrow> str list" where
  "raw_statements cs = List.map_filter statement_of cs"


section \<open>Named parts of the program\<close>

text \<open>The insertion of the administrative account that \<open>main\<close> sends, with or without a role.\<close>

definition admin_insert :: "world \<Rightarrow> str option \<Rightarrow> query" where
  "admin_insert w r =
     InsertUser (lit ''admin'') (lit ''admin@example.com'')
       (hasher w (environ_get (environ w) (lit ''ADMIN_PASSWORD'') (lit ''admin@123''))) r"

text \<open>
  The part of \<open>main\<close> between the connection and the line \<open>Migrations complete.\<close>: the
  cursor, the tracking table, the commit and the loop over the migration files.
\<close>

definition migrate_part :: "nat \<Rightarrow> unit io" where
  "migrate_part conn =
     and_then (cursor conn) (\<lambda>cur.
     and_then (execute cur CreateTrackingTable) (\<lambda>_.
     and_then (commit conn) (\<lambda>_.
     (\<lambda>w. apply_pending conn cur (load_migrations (migrations_dir w)) w))))"

text \<open>
  What the loop of \<open>main\<close> prints for one file, given the names \<open>ns\<close> recorded when the
  run started: the skipping line, or the applying line followed by warnings about
  statements of that file.
\<close>

definition unit_block :: "str list \<Rightarrow> str \<times> str \<Rightarrow> str list \<Rightarrow> bool" where
  "unit_block ns path b \<longleftrightarrow>
     (if fst path \<in> set ns then b = [line_skipping (fst path)]
      else \<exists>ws. b = line_applying (fst path) # ws \<and>
             (\<forall>l\<in>set ws. \<exists>s e. s \<in> set (statements (snd path)) \<and> l = line_warn_stmt (fst path) s e))"

section \<open>Assumptions on the environment\<close>

text \<open>The parts of the world that no operation of the program changes.\<close>

definition same_setting :: "world \<Rightarrow> world \<Rightarrow> bool" where
  "same_setting w w' \<longleftrightarrow>
     environ w' = environ w \<and> installed w' = installed w \<and> migrations_dir w' = migrations_dir w \<and>
     hasher w' = hasher w \<and> engine w' = engine w \<and> faults w' = faults w"

text \<open>No statement of a migration file writes to \<open>schema_migrations\<close>.\<close>

definition keeps_tracking :: "(str \<Rightarrow> dbstate \<Rightarrow> exn + dbstate) \<Rightarrow> bool" where
  "keeps_tracking eng \<longleftrightarrow> (\<forall>s d d'. eng s d = Inr d' \<longrightarrow> schema_migrations d' = schema_migrations d)"

text \<open>No driver call from the \<open>n\<close>-th on fails for a reason of its own.\<close>

definition no_faults_from :: "world \<Rightarrow> nat \<Rightarrow> bool" where
  "no_faults_from w n \<longleftrightarrow> (\<forall>k\<ge>n. faults w k = None)"

section \<open>Sequences of driver calls\<close>

text \<open>
  The connection procedure in the words of the specification, for one driver: the direct
  connection; then, when the database may be created, the connection without a database,
  its cursor, the conditional creation, the commit and the close of that connection
  \<open>t\<close>, and the second direct connection.
\<close>

definition attempt_script :: "driver \<Rightarrow> str \<Rightarrow> bool \<Rightarrow> nat \<Rightarrow> call list" where
  "attempt_script drv db create t =
     Connect drv (Some db) #
     (if create
      then [Connect drv None, Cursor t, Execute t (CreateDatabase db), Commit t, Close t, Connect drv (Some db)]
      else [])"

text \<open>The driver calls of \<open>apply_migration\<close> when nothing but statements of the file fails.\<close>

definition apply_script :: "nat \<Rightarrow> str \<times> str \<Rightarrow> call list" where
  "apply_script conn path =
     Cursor conn # map (\<lambda>s. Execute conn (Raw s)) (statements (snd path)) @
     [Execute conn (InsertMigration (fst path)), Commit conn]"

section \<open>Example worlds\<close>

text \<open>
  A world with the default configuration, \<open>pymysql\<close> installed, no fault of the driver's
  own, and a server that rejects exactly the statement \<open>FAIL\<close>.
\<close>

definition plain_world :: "dbstate option \<Rightarrow> (str \<times> str) list \<Rightarrow> world" where
  "plain_world db dir =
     \<lparr> environ = Map.empty, installed = (\<lambda>d. d = PyMySQL), migrations_dir = dir,
       hasher = (\<lambda>p. lit ''hash:'' @ p), target = db,
       engine = (\<lambda>s d. if s = lit ''FAIL'' then Inl (DBError (lit ''syntax error'')) else Inr d),
       faults = (\<lambda>n. None), calls = [], next_conn = 0, open_conns = [], stdout = [] \<rparr>"

definition tracked_db :: "str list \<Rightarrow> dbstate" where
  "tracked_db ns = \<lparr> schema_migrations = Some ns, users = None, role_domain = None \<rparr>"

text \<open>The same world with \<open>MYSQL_PORT=abc\<close> in the environment.\<close>

definition bad_port_world :: world where
  "bad_port_world = (plain_world (Some empty_db) [])\<lparr>environ := [lit ''MYSQL_PORT'' \<mapsto> lit ''abc'']\<rparr>"


text \<open>A database with an empty tracking table and the given \<open>users\<close> rows and role values.\<close>

definition users_db :: "user_row list \<Rightarrow> str list option \<Rightarrow> dbstate" where
  "users_db us vals = \<lparr> schema_migrations = Some [], users = Some us, role_domain = vals \<rparr>"

definition admin_row :: user_row where
  "admin_row = \<lparr> username = lit ''admin'', email = lit ''admin@example.com'',
                 password_hash = lit ''hash:admin@123'', role = Some (lit ''admin'') \<rparr>"

text \<open>A server whose \<open>users\<close> table is empty and whose role column accepts \<open>admin\<close>.\<close>

definition fresh_users_world :: world where
  "fresh_users_world =
     plain_world (Some (users_db [] (Some [lit ''user'', lit ''admin'', lit ''customer'']))) []"

text \<open>An older schema: the role column of \<open>users\<close> does not accept \<open>admin\<close>.\<close>

definition legacy_users_world :: world where
  "legacy_users_world = plain_world (Some (users_db [] (Some [lit ''user'', lit ''customer'']))) []"

text \<open>A database without tables and no migration files.\<close>

definition bare_world :: world where
  "bare_world = plain_world (Some empty_db) []"

text \<open>A migration file of three statements, the second of which the example server rejects.\<close>

definition three_statement_file :: "str \<times> str" where
  "three_statement_file = (lit ''0001_init.sql'', lit ''A; FAIL; B'')"


text \<open>A fresh server and the three-statement file in the migrations directory.\<close>

definition migrating_world :: world where
  "migrating_world =
     plain_world (Some (users_db [] (Some [lit ''user'', lit ''admin'', lit ''customer''])))
       [three_statement_file]"


text \<open>Three migration files, as the directory lists them and in the order of their names.\<close>

definition listed_dir :: "(str \<times> str) list" where
  "listed_dir = [(lit ''0010_add_index.sql'', lit ''C''), (lit ''0001_init.sql'', lit ''A''),
                 (lit ''0002_add_column.sql'', lit ''B'')]"

definition ordered_dir :: "(str \<times> str) list" where
  "ordered_dir = [(lit ''0001_init.sql'', lit ''A''), (lit ''0002_add_column.sql'', lit ''B''),
                  (lit ''0010_add_index.sql'', lit ''C'')]"

section \<open>Basic facts about the operations\<close>

lemmas io_defs = ret_def raise_def and_then_def try_except_def print_def driver_call_def

lemma same_setting_refl [simp]: "same_setting w w"
  by (simp add: same_setting_def)

lemma same_setting_trans: "same_setting w w1 \<Longrightarrow> same_setting w1 w2 \<Longrightarrow> same_setting w w2"
  by (simp add: same_setting_def)

lemma same_setting_upd [simp]:
  "same_setting w (w'\<lparr>calls := cs\<rparr>) = same_setting w w'"
  "same_setting w (w'\<lparr>stdout := out\<rparr>) = same_setting w w'"
  "same_setting w (w'\<lparr>target := t\<rparr>) = same_setting w w'"
  "same_setting w (w'\<lparr>next_conn := n\<rparr>) = same_setting w w'"
  "same_setting w (w'\<lparr>open_conns := oc\<rparr>) = same_setting w w'"
  by (simp_all add: same_setting_def)

lemma execute_effect:
  assumes "execute c q w = (r, w')"
  shows "calls w' = calls w @ [Execute c q] \<and> same_setting w w' \<and> stdout w' = stdout w \<and>
     next_conn w' = next_conn w \<and> open_conns w' = open_conns w"
  using assms
  by (cases q)
     (auto simp: execute_def io_defs Let_def split: option.splits sum.splits prod.splits)

lemma execute_raw_tracking:
  assumes "keeps_tracking (engine w)" and "execute c (Raw s) w = (r, w')"
  shows "tracking w' = tracking w"
  using assms
  by (auto simp: execute_def io_defs Let_def tracking_def keeps_tracking_def
           split: option.splits sum.splits prod.splits)


lemma run_statements_step:
  assumes "execute cur (Raw stmt) w = (r, w1)"
  shows "run_statements cur name (stmt # stmts) w =
     run_statements cur name stmts
       (case r of Inl e \<Rightarrow> w1\<lparr>stdout := stdout w1 @ [line_warn_stmt name stmt e]\<rparr> | Inr n \<Rightarrow> w1)"
  using assms by (cases r) (simp_all add: io_defs)

lemma run_statements_effect:
  "\<exists>w' warns. run_statements cur name stmts w = (Inr (), w') \<and>
     calls w' = calls w @ map (\<lambda>s. Execute cur (Raw s)) stmts \<and>
     same_setting w w' \<and> next_conn w' = next_conn w \<and> open_conns w' = open_conns w \<and>
     stdout w' = stdout w @ warns \<and>
     (\<forall>l\<in>set warns. \<exists>s e. s \<in> set stmts \<and> l = line_warn_stmt name s e) \<and>
     (keeps_tracking (engine w) \<longrightarrow> tracking w' = tracking w)"
proof (induction stmts arbitrary: w)
  case Nil
  show ?case by (simp add: ret_def)
next
  case (Cons stmt stmts)
  obtain r w1 where ex: "execute cur (Raw stmt) w = (r, w1)"
    by (cases "execute cur (Raw stmt) w") auto
  note eff = execute_effect [OF ex]
  define ws where "ws = (case r of Inl e \<Rightarrow> [line_warn_stmt name stmt e] | Inr n \<Rightarrow> [])"
  define w2 where "w2 = w1\<lparr>stdout := stdout w1 @ ws\<rparr>"
  have w2_eq: "(case r of Inl e \<Rightarrow> w1\<lparr>stdout := stdout w1 @ [line_warn_stmt name stmt e]\<rparr> | Inr n \<Rightarrow> w1) = w2"
    by (cases r) (simp_all add: w2_def ws_def)
  have step: "run_statements cur name (stmt # stmts) w = run_statements cur name stmts w2"
    using run_statements_step [OF ex] w2_eq by simp
  have c2: "calls w2 = calls w @ [Execute cur (Raw stmt)]" using eff by (simp add: w2_def)
  have s2: "same_setting w w2" using eff by (simp add: w2_def)
  have n2: "next_conn w2 = next_conn w" using eff by (simp add: w2_def)
  have o2: "open_conns w2 = open_conns w" using eff by (simp add: w2_def)
  have out2: "stdout w2 = stdout w @ ws" using eff by (simp add: w2_def)
  have ws: "\<forall>l\<in>set ws. \<exists>e. l = line_warn_stmt name stmt e" by (cases r) (auto simp: ws_def)
  have t2: "keeps_tracking (engine w) \<longrightarrow> tracking w2 = tracking w"
    using execute_raw_tracking [OF _ ex] by (simp add: w2_def tracking_def)
  from Cons.IH [of w2] obtain w' warns where
    IH: "run_statements cur name stmts w2 = (Inr (), w')"
      "calls w' = calls w2 @ map (\<lambda>s. Execute cur (Raw s)) stmts"
      "same_setting w2 w'" "next_conn w' = next_conn w2" "open_conns w' = open_conns w2"
      "stdout w' = stdout w2 @ warns"
      "\<forall>l\<in>set warns. \<exists>s e. s \<in> set stmts \<and> l = line_warn_stmt name s e"
      "keeps_tracking (engine w2) \<longrightarrow> tracking w' = tracking w2"
    by blast
  have eng: "engine w2 = engine w" using s2 by (simp add: same_setting_def)
  show ?case
  proof (intro exI conjI)
    show "run_statements cur name (stmt # stmts) w = (Inr (), w')" using step IH(1) by simp
    show "calls w' = calls w @ map (\<lambda>s. Execute cur (Raw s)) (stmt # stmts)" using IH(2) c2 by simp
    show "same_setting w w'" using same_setting_trans [OF s2 IH(3)] .
    show "next_conn w' = next_conn w" using IH(4) n2 by simp
    show "open_conns w' = open_conns w" using IH(5) o2 by simp
    show "stdout w' = stdout w @ (ws @ warns)" using IH(6) out2 by simp
    show "\<forall>l\<in>set (ws @ warns). \<exists>s e. s \<in> set (stmt # stmts) \<and> l = line_warn_stmt name s e"
      using ws IH(7) by (simp add: Ball_def) blast
    show "keeps_tracking (engine w) \<longrightarrow> tracking w' = tracking w"
      using IH(8) t2 eng by simp
  qed
qed


lemma cursor_eq:
  "cursor c w =
     (case faults w (length (calls w)) of Some e \<Rightarrow> Inl e | None \<Rightarrow> Inr c, w\<lparr>calls := calls w @ [Cursor c]\<rparr>)"
  by (simp add: cursor_def io_defs Let_def split: option.splits)

lemma commit_eq:
  "commit c w =
     (case faults w (length (calls w)) of Some e \<Rightarrow> Inl e | None \<Rightarrow> Inr (), w\<lparr>calls := calls w @ [Commit c]\<rparr>)"
  by (simp add: commit_def io_defs Let_def split: option.splits)

lemma apply_migration_effect:
  assumes "apply_migration conn path w = (r, w')"
  shows "\<exists>new warns. calls w' = calls w @ new \<and> prefix new (apply_script conn path) \<and>
     (r = Inr () \<longrightarrow> new = apply_script conn path) \<and>
     (faults w (length (calls w)) = None \<longrightarrow>
        prefix (Cursor conn # map (\<lambda>s. Execute conn (Raw s)) (statements (snd path)) @
                [Execute conn (InsertMigration (fst path))]) new) \<and>
     same_setting w w' \<and> next_conn w' = next_conn w \<and> open_conns w' = open_conns w \<and>
     stdout w' = stdout w @ warns \<and>
     (\<forall>l\<in>set warns. \<exists>s e. s \<in> set (statements (snd path)) \<and> l = line_warn_stmt (fst path) s e)"
proof (cases "faults w (length (calls w))")
  case (Some e)
  then have "apply_migration conn path w = (Inl e, w\<lparr>calls := calls w @ [Cursor conn]\<rparr>)"
    by (simp add: apply_migration_def and_then_def cursor_eq)
  with assms Some show ?thesis
    by (intro exI [of _ "[Cursor conn]"] exI [of _ "[]"]) (auto simp: apply_script_def)
next
  case None
  define w1 where "w1 = w\<lparr>calls := calls w @ [Cursor conn]\<rparr>"
  define stmts where "stmts = statements (snd path)"
  obtain w2 warns where rs: "run_statements conn (fst path) stmts w1 = (Inr (), w2)"
    and c2: "calls w2 = calls w1 @ map (\<lambda>s. Execute conn (Raw s)) stmts"
    and s2: "same_setting w1 w2" and n2: "next_conn w2 = next_conn w1"
    and o2: "open_conns w2 = open_conns w1" and out2: "stdout w2 = stdout w1 @ warns"
    and warns: "\<forall>l\<in>set warns. \<exists>s e. s \<in> set stmts \<and> l = line_warn_stmt (fst path) s e"
    using run_statements_effect [of conn "fst path" stmts w1] by blast
  obtain r3 w3 where ins: "execute conn (InsertMigration (fst path)) w2 = (r3, w3)"
    by (cases "execute conn (InsertMigration (fst path)) w2") auto
  note e3 = execute_effect [OF ins]
  have am: "apply_migration conn path w =
     (case r3 of Inl e \<Rightarrow> (Inl e, w3) | Inr n \<Rightarrow> commit conn w3)"
    using None rs ins
    by (simp add: apply_migration_def and_then_def cursor_eq w1_def stmts_def split: sum.splits)
  have base: "calls w3 = calls w @ (Cursor conn # map (\<lambda>s. Execute conn (Raw s)) stmts @ [Execute conn (InsertMigration (fst path))])"
    "same_setting w w3" "next_conn w3 = next_conn w" "open_conns w3 = open_conns w"
    "stdout w3 = stdout w @ warns"
    using e3 c2 s2 n2 o2 out2 by (simp_all add: w1_def same_setting_def)
  show ?thesis
  proof (cases r3)
    case (Inl e)
    with am assms have "r = Inl e" "w' = w3" by simp_all
    with base warns None show ?thesis
      by (intro exI [of _ "Cursor conn # map (\<lambda>s. Execute conn (Raw s)) stmts @ [Execute conn (InsertMigration (fst path))]"]
                exI [of _ warns])
         (auto simp: apply_script_def stmts_def prefix_def)
  next
    case (Inr n)
    with am assms have c: "commit conn w3 = (r, w')" by simp
    then have w': "w' = w3\<lparr>calls := calls w3 @ [Commit conn]\<rparr>" by (auto simp: commit_eq)
    with base warns None show ?thesis
      by (intro exI [of _ "apply_script conn path"] exI [of _ warns])
         (auto simp: apply_script_def stmts_def prefix_def)
  qed
qed


lemma py_int_3306: "py_int (lit ''3306'') = Inr 3306"
  by (simp add: py_int_def lit_def strip_def isspace_def isdigit_def)

lemma mysql_config_empty:
  "mysql_config Map.empty =
     Inr \<lparr> host = lit ''127.0.0.1'', port = 3306, user = lit ''root'', password = lit ''root@123'',
           database = lit ''todolist'' \<rparr>"
  by (simp add: mysql_config_def environ_get_def py_int_3306)

lemma already_applied_eq:
  "already_applied cur name w =
    (Inr (faults w (length (calls w)) = None \<and> name \<in> set (recorded w)),
     w\<lparr>calls := calls w @ [Execute cur (SelectMigration name)]\<rparr>)"
  by (auto simp: already_applied_def execute_def io_defs recorded_def tracking_def Let_def filter_empty_conv
      split: option.splits sum.splits prod.splits)

lemma lookup_result:
  "fst (execute cur (SelectMigration name) w) =
     (case faults w (length (calls w)) of
        Some e \<Rightarrow> Inl e
      | None \<Rightarrow> (case target w of
                   None \<Rightarrow> Inl (DBError (lit ''No database selected''))
                 | Some d \<Rightarrow> (case schema_migrations d of
                       None \<Rightarrow> Inl (DBError (lit ''Table schema_migrations does not exist''))
                     | Some ns \<Rightarrow> Inr (length (filter (\<lambda>m. m = name) ns)))))"
  by (auto simp: execute_def io_defs Let_def split: option.splits sum.splits prod.splits)

section \<open>The lookup of a migration name\<close>

text \<open>
  Claim C4. \<open>already_applied\<close> never raises. When the point lookup in
  \<open>schema_migrations\<close> succeeds, it returns true exactly when a row with that name
  exists; when the lookup raises, for whatever reason, it returns false.
\<close>

theorem already_applied_lenient:
  "(\<exists>b w'. already_applied cur name w = (Inr b, w')) \<and>
   (\<forall>n w'. execute cur (SelectMigration name) w = (Inr n, w') \<longrightarrow>
      fst (already_applied cur name w) = Inr (name \<in> set (recorded w))) \<and>
   (\<forall>e w'. execute cur (SelectMigration name) w = (Inl e, w') \<longrightarrow>
      fst (already_applied cur name w) = Inr False)"
proof (intro conjI allI impI)
  show "\<exists>b w'. already_applied cur name w = (Inr b, w')"
    by (simp add: already_applied_eq)
next
  fix n w' assume "execute cur (SelectMigration name) w = (Inr n, w')"
  then have "fst (execute cur (SelectMigration name) w) = Inr n" by simp
  then have "faults w (length (calls w)) = None"
    by (simp add: lookup_result split: option.splits)
  then show "fst (already_applied cur name w) = Inr (name \<in> set (recorded w))"
    by (simp add: already_applied_eq)
next
  fix e w' assume "execute cur (SelectMigration name) w = (Inl e, w')"
  then have "fst (execute cur (SelectMigration name) w) = Inl e" by simp
  then have "faults w (length (calls w)) \<noteq> None \<or> recorded w = []"
    by (auto simp: lookup_result recorded_def tracking_def split: option.splits)
  then show "fst (already_applied cur name w) = Inr False"
    by (auto simp: already_applied_eq)
qed

theorem already_applied_lenient_witness:
  "execute 0 (SelectMigration (lit ''0001_init.sql'')) (plain_world (Some (tracked_db [lit ''0001_init.sql''])) []) =
     (Inr 1, (plain_world (Some (tracked_db [lit ''0001_init.sql''])) [])
               \<lparr>calls := [Execute 0 (SelectMigration (lit ''0001_init.sql''))]\<rparr>) \<and>
   fst (already_applied 0 (lit ''0001_init.sql'') (plain_world (Some (tracked_db [lit ''0001_init.sql''])) [])) = Inr True \<and>
   execute 0 (SelectMigration (lit ''0001_init.sql'')) (plain_world (Some empty_db) []) =
     (Inl (DBError (lit ''Table schema_migrations does not exist'')),
      (plain_world (Some empty_db) [])\<lparr>calls := [Execute 0 (SelectMigration (lit ''0001_init.sql''))]\<rparr>) \<and>
   fst (already_applied 0 (lit ''0001_init.sql'') (plain_world (Some empty_db) [])) = Inr False"
proof -
  let ?n = "lit ''0001_init.sql''"
  let ?w = "plain_world (Some (tracked_db [?n])) []"
  let ?v = "plain_world (Some empty_db) []"
  have a: "execute 0 (SelectMigration ?n) ?w = (Inr 1, ?w\<lparr>calls := [Execute 0 (SelectMigration ?n)]\<rparr>)"
    by (simp add: execute_def io_defs plain_world_def tracked_db_def)
  have b: "execute 0 (SelectMigration ?n) ?v =
     (Inl (DBError (lit ''Table schema_migrations does not exist'')), ?v\<lparr>calls := [Execute 0 (SelectMigration ?n)]\<rparr>)"
    by (simp add: execute_def io_defs plain_world_def empty_db_def)
  have r: "recorded ?w = [?n]"
    by (simp add: recorded_def tracking_def plain_world_def tracked_db_def)
  from already_applied_lenient [of 0 ?n ?w] a r
  have "fst (already_applied 0 ?n ?w) = Inr True" by simp
  moreover from already_applied_lenient [of 0 ?n ?v] b
  have "fst (already_applied 0 ?n ?v) = Inr False" by simp
  ultimately show ?thesis using a b by simp
qed

section \<open>A malformed port\<close>

text \<open>
  Claim C10. \<open>connect_mysql\<close> never lets an exception reach its caller. The code reads
  the configuration before its first \<open>try\<close>: with \<open>MYSQL_PORT=abc\<close> the call to
  \<open>int()\<close> raises \<open>ValueError\<close>, which leaves \<open>connect_mysql\<close> and then \<open>main\<close>.
  (With a port that parses, whatever the drivers do, the result is a connection or
  \<open>None\<close>: see \<open>connect_mysql_effect\<close> below.)
\<close>

theorem connect_mysql_bad_port:
  "connect_mysql True bad_port_world =
     (Inl (ValueError (lit ''invalid literal for int() with base 10: '' @ [39] @ lit ''abc'' @ [39])),
      bad_port_world) \<and>
   fst (main bad_port_world) =
     Inl (ValueError (lit ''invalid literal for int() with base 10: '' @ [39] @ lit ''abc'' @ [39]))"
proof -
  have p: "py_int (lit ''abc'') = Inl (ValueError (lit ''invalid literal for int() with base 10: '' @ [39] @ lit ''abc'' @ [39]))"
    by (simp add: py_int_def lit_def strip_def isspace_def isdigit_def)
  have c: "mysql_config (environ bad_port_world) =
     Inl (ValueError (lit ''invalid literal for int() with base 10: '' @ [39] @ lit ''abc'' @ [39]))"
    by (simp add: mysql_config_def environ_get_def bad_port_world_def plain_world_def p)
  then show ?thesis
    by (simp add: connect_mysql_def main_def and_then_def)
qed

section \<open>Acquiring a connection\<close>

lemma connect_with_effect:
  assumes "connect_with drv c create w = (r, w')"
  shows "\<exists>p. calls w' = calls w @ p \<and>
     prefix p (attempt_script drv (database c) create (next_conn w)) \<and>
     (installed w drv \<longrightarrow> p \<noteq> []) \<and> (\<not> installed w drv \<longrightarrow> p = [] \<and> r \<noteq> Inr None) \<and>
     (\<forall>k. r = Inr (Some k) \<longrightarrow> k \<in> set (open_conns w') \<and> last p = Connect drv (Some (database c)))"
  using assms
  unfolding connect_with_def connect_def cursor_def execute_def commit_def close_def import_driver_def io_defs attempt_script_def Let_def
  by (auto split: if_splits option.splits sum.splits prod.splits simp: prefix_def)

lemma connect_with_setting:
  assumes "connect_with drv c create w = (r, w')"
  shows "same_setting w w' \<and> stdout w' = stdout w \<and> next_conn w \<le> next_conn w'"
  using assms
  unfolding connect_with_def connect_def cursor_def execute_def commit_def close_def import_driver_def io_defs same_setting_def Let_def
  by (auto split: if_splits option.splits sum.splits prod.splits)

lemma connect_mysql_unfold:
  assumes "mysql_config (environ w) = Inr c"
  shows "connect_mysql create w =
     (case connect_with PyMySQL c create w of
        (Inr (Some k), w1) \<Rightarrow> (Inr (Some k), w1)
      | (other, w1) \<Rightarrow>
          (case connect_with MySQLConnector c create w1 of
             (Inr (Some k), w2) \<Rightarrow> (Inr (Some k), w2)
           | (other', w2) \<Rightarrow> (Inr None, w2)))"
  using assms
  by (auto simp: connect_mysql_def io_defs split: prod.splits sum.splits option.splits)





section \<open>Seeding the administrative account\<close>

lemma select_user_effect:
  assumes "execute c (SelectUser u) w = (r, w')"
  shows "w' = w\<lparr>calls := calls w @ [Execute c (SelectUser u)]\<rparr> \<and>
     (\<forall>n. r = Inr n \<longrightarrow> faults w (length (calls w)) = None \<and> (u = lit ''admin'' \<longrightarrow> n = admin_rows w))"
  using assms
  by (auto simp: execute_def io_defs Let_def admin_rows_def split: option.splits sum.splits prod.splits)

lemma no_user_filter:
  "u \<notin> set (map username us) \<Longrightarrow> filter (\<lambda>r. username r = u) us = []"
  by (induction us) auto

lemma insert_admin_effect:
  assumes "execute c (InsertUser (lit ''admin'') e h ro) w = (r, w')"
  shows "(\<forall>n. r = Inr n \<longrightarrow> admin_rows w = 0 \<and> admin_rows w' = 1) \<and>
     (\<forall>x. r = Inl x \<longrightarrow> w' = w\<lparr>calls := calls w @ [Execute c (InsertUser (lit ''admin'') e h ro)]\<rparr>)"
proof (cases "faults w (length (calls w))")
  case (Some x)
  with assms show ?thesis by (auto simp: execute_def io_defs Let_def)
next
  case None
  show ?thesis
  proof (cases "target w")
    case N: None
    with None assms show ?thesis by (auto simp: execute_def io_defs Let_def)
  next
    case (Some d)
    show ?thesis
    proof (cases "run_query (engine w) (InsertUser (lit ''admin'') e h ro) d")
      case (Inl x)
      with None Some assms show ?thesis by (auto simp: execute_def io_defs Let_def)
    next
      case (Inr p)
      obtain n d' where p: "p = (n, d')" by (cases p)
      from Inr p obtain us where us: "users d = Some us" "lit ''admin'' \<notin> set (map username us)"
        "users d' = Some (us @ [\<lparr>username = lit ''admin'', email = e, password_hash = h, role = ro\<rparr>])"
        by (auto split: option.splits if_splits)
      from None Some Inr p assms have "r = Inr n" "target w' = Some d'"
        by (auto simp: execute_def io_defs Let_def)
      with Some us show ?thesis
        by (simp add: admin_rows_def no_user_filter)
    qed
  qed
qed

lemma admin_rows_upd [simp]:
  "admin_rows (w\<lparr>calls := cs\<rparr>) = admin_rows w"
  "admin_rows (w\<lparr>stdout := out\<rparr>) = admin_rows w"
  by (simp_all add: admin_rows_def)

lemma admin_insert_upd [simp]:
  "admin_insert (w\<lparr>calls := cs\<rparr>) r = admin_insert w r"
  "admin_insert (w\<lparr>stdout := out\<rparr>) r = admin_insert w r"
  "admin_insert (w\<lparr>target := t\<rparr>) r = admin_insert w r"
  by (simp_all add: admin_insert_def)

lemma admin_insert_same: "same_setting w w' \<Longrightarrow> admin_insert w' r = admin_insert w r"
  by (simp add: admin_insert_def same_setting_def)

text \<open>The seeding step, branch by branch.\<close>

lemma ensure_admin_unfold:
  "ensure_admin conn cur w =
     (case execute cur (SelectUser (lit ''admin'')) w of
        (Inl e, w0) \<Rightarrow> (Inr (), w0\<lparr>stdout := stdout w0 @ [line_warn_admin e]\<rparr>)
      | (Inr n, w0) \<Rightarrow>
          if n \<noteq> 0 then (Inr (), w0)
          else
            (case (case execute cur (admin_insert w (Some (lit ''admin''))) w0 of
                     (Inl e, w1) \<Rightarrow> execute cur (admin_insert w None) w1
                   | (Inr m, w1) \<Rightarrow> (Inr m, w1)) of
               (Inl e, w2) \<Rightarrow> (Inr (), w2\<lparr>stdout := stdout w2 @ [line_warn_admin e]\<rparr>)
             | (Inr m, w2) \<Rightarrow>
                 (case commit conn w2 of
                    (Inl e, w3) \<Rightarrow> (Inr (), w3\<lparr>stdout := stdout w3 @ [line_warn_admin e]\<rparr>)
                  | (Inr u, w3) \<Rightarrow> (Inr (), w3\<lparr>stdout := stdout w3 @ [line_admin_created]\<rparr>))))"
proof -
  obtain r0 w0 where s: "execute cur (SelectUser (lit ''admin'')) w = (r0, w0)"
    by (cases "execute cur (SelectUser (lit ''admin'')) w") auto
  from select_user_effect [OF s] have w0: "w0 = w\<lparr>calls := calls w @ [Execute cur (SelectUser (lit ''admin''))]\<rparr>"
    by simp
  have a: "admin_insert w0 = admin_insert w" by (simp add: w0 fun_eq_iff)
  show ?thesis
    using s a
    by (auto simp: ensure_admin_def ret_def and_then_def try_except_def print_def Let_def
          admin_insert_def w0
        split: prod.splits sum.splits)
qed


lemma execute_user_tracking:
  assumes "execute c (InsertUser u e h ro) w = (r, w')"
  shows "tracking w' = tracking w"
  using assms
  by (auto simp: execute_def io_defs Let_def tracking_def split: option.splits sum.splits prod.splits if_splits)

lemma commit_effect:
  assumes "commit c w = (r, w')"
  shows "w' = w\<lparr>calls := calls w @ [Commit c]\<rparr> \<and> (r = Inr () \<longleftrightarrow> faults w (length (calls w)) = None)"
  using assms by (auto simp: commit_eq split: option.splits)

lemma tracking_upd [simp]:
  "tracking (w\<lparr>calls := cs\<rparr>) = tracking w"
  "tracking (w\<lparr>stdout := out\<rparr>) = tracking w"
  by (simp_all add: tracking_def)

lemma new_lines_append: "stdout w' = stdout w @ out \<Longrightarrow> new_lines w w' = out"
  by (simp add: new_lines_def)

lemma new_calls_append: "calls w' = calls w @ new \<Longrightarrow> new_calls w w' = new"
  by (simp add: new_calls_def)

text \<open>Every way the seeding step can go.\<close>

lemma ensure_admin_outcome:
  fixes conn cur w
  defines "S \<equiv> Execute cur (SelectUser (lit ''admin''))"
    and "I1 \<equiv> Execute cur (admin_insert w (Some (lit ''admin'')))"
    and "I2 \<equiv> Execute cur (admin_insert w None)"
    and "K \<equiv> Commit conn"
  shows "\<exists>w' new out. ensure_admin conn cur w = (Inr (), w') \<and>
     calls w' = calls w @ new \<and> stdout w' = stdout w @ out \<and> same_setting w w' \<and>
     tracking w' = tracking w \<and> next_conn w' = next_conn w \<and> open_conns w' = open_conns w \<and>
     ((new = [S] \<and> (\<exists>e. out = [line_warn_admin e]) \<and> target w' = target w) \<or>
      (new = [S] \<and> out = [] \<and> target w' = target w \<and> 0 < admin_rows w \<and> faults w (length (calls w)) = None) \<or>
      (new = [S, I1, K] \<and> (out = [line_admin_created] \<or> (\<exists>e. out = [line_warn_admin e])) \<and>
         admin_rows w = 0 \<and> admin_rows w' = 1) \<or>
      (new = [S, I1, I2] \<and> (\<exists>e. out = [line_warn_admin e]) \<and> target w' = target w \<and> admin_rows w = 0) \<or>
      (new = [S, I1, I2, K] \<and> (out = [line_admin_created] \<or> (\<exists>e. out = [line_warn_admin e])) \<and>
         admin_rows w = 0 \<and> admin_rows w' = 1))"
proof -
  obtain r0 w0 where s: "execute cur (SelectUser (lit ''admin'')) w = (r0, w0)"
    by (cases "execute cur (SelectUser (lit ''admin'')) w") auto
  from select_user_effect [OF s]
  have w0: "w0 = w\<lparr>calls := calls w @ [S]\<rparr>"
    and n0: "\<And>n. r0 = Inr n \<Longrightarrow> faults w (length (calls w)) = None \<and> n = admin_rows w"
    by (simp_all add: S_def)
  show ?thesis
  proof (cases r0)
    case (Inl e)
    with s have "ensure_admin conn cur w = (Inr (), w0\<lparr>stdout := stdout w0 @ [line_warn_admin e]\<rparr>)"
      by (simp add: ensure_admin_unfold)
    then show ?thesis by (simp add: w0) blast
  next
    case (Inr n)
    note n = n0 [OF Inr]
    show ?thesis
    proof (cases "n = 0")
      case False
      with s Inr have "ensure_admin conn cur w = (Inr (), w0)"
        by (simp add: ensure_admin_unfold)
      with False n show ?thesis by (simp add: w0)
    next
      case True
      obtain r1 w1 where i1: "execute cur (admin_insert w (Some (lit ''admin''))) w0 = (r1, w1)"
        by (cases "execute cur (admin_insert w (Some (lit ''admin''))) w0") auto
      note e1 = execute_effect [OF i1]
      have t1: "tracking w1 = tracking w"
        using execute_user_tracking [OF i1 [unfolded admin_insert_def]] by (simp add: w0)
      note a1 = insert_admin_effect [OF i1 [unfolded admin_insert_def], folded admin_insert_def]
      show ?thesis
      proof (cases r1)
        case r1: (Inr m)
        obtain r3 w3 where c: "commit conn w1 = (r3, w3)" by (cases "commit conn w1") auto
        note c3 = commit_effect [OF c]
        from s Inr True i1 r1 c
        have ea: "ensure_admin conn cur w =
            (Inr (), w3\<lparr>stdout := stdout w3 @
               [case r3 of Inl e \<Rightarrow> line_warn_admin e | Inr u \<Rightarrow> line_admin_created]\<rparr>)"
          by (simp add: ensure_admin_unfold split: sum.splits)
        have rows: "admin_rows w = 0" "admin_rows w3 = 1"
          using a1 r1 c3 by (simp_all add: w0)
        have "calls w3 = calls w @ [S, I1, K]" "stdout w3 = stdout w" "same_setting w w3"
          "tracking w3 = tracking w" "next_conn w3 = next_conn w" "open_conns w3 = open_conns w"
          using e1 t1 c3 by (simp_all add: w0 I1_def K_def same_setting_def)
        with ea rows show ?thesis by (cases r3) auto
      next
        case l1: (Inl x1)
        from a1 l1 have w1: "w1 = w0\<lparr>calls := calls w0 @ [I1]\<rparr>" by (simp add: I1_def)
        obtain r2 w2 where i2: "execute cur (admin_insert w None) w1 = (r2, w2)"
          by (cases "execute cur (admin_insert w None) w1") auto
        note e2 = execute_effect [OF i2]
        have t2: "tracking w2 = tracking w"
          using execute_user_tracking [OF i2 [unfolded admin_insert_def]] by (simp add: w0 w1)
        note a2 = insert_admin_effect [OF i2 [unfolded admin_insert_def], folded admin_insert_def]
        show ?thesis
        proof (cases r2)
          case l2: (Inl x2)
          with a2 have w2: "w2 = w1\<lparr>calls := calls w1 @ [I2]\<rparr>" by (simp add: I2_def)
          from s Inr True i1 l1 i2 l2
          have "ensure_admin conn cur w = (Inr (), w2\<lparr>stdout := stdout w2 @ [line_warn_admin x2]\<rparr>)"
            by (simp add: ensure_admin_unfold)
          with n True show ?thesis by (simp add: w0 w1 w2) blast
        next
          case r2: (Inr m)
          obtain r3 w3 where c: "commit conn w2 = (r3, w3)" by (cases "commit conn w2") auto
          note c3 = commit_effect [OF c]
          from s Inr True i1 l1 i2 r2 c
          have ea: "ensure_admin conn cur w =
              (Inr (), w3\<lparr>stdout := stdout w3 @
                 [case r3 of Inl e \<Rightarrow> line_warn_admin e | Inr u \<Rightarrow> line_admin_created]\<rparr>)"
            by (simp add: ensure_admin_unfold split: sum.splits)
          have rows: "admin_rows w = 0" "admin_rows w3 = 1"
            using a2 r2 c3 by (simp_all add: w0 w1)
          have "calls w3 = calls w @ [S, I1, I2, K]" "stdout w3 = stdout w" "same_setting w w3"
            "tracking w3 = tracking w" "next_conn w3 = next_conn w" "open_conns w3 = open_conns w"
            using e2 t2 c3 by (simp_all add: w0 w1 I1_def I2_def K_def same_setting_def)
          with ea rows show ?thesis by (cases r3) auto
        qed
      qed
    qed
  qed
qed

section \<open>Seeding twice\<close>

lemma admin_rows_target: "target w' = target w \<Longrightarrow> admin_rows w' = admin_rows w"
  by (simp add: admin_rows_def)

lemma warn_admin_not_created: "line_warn_admin e \<noteq> line_admin_created"
  by (simp add: line_warn_admin_def line_admin_created_def lit_def)

lemma ensure_admin_rows:
  "admin_rows w \<le> admin_rows (snd (ensure_admin conn cur w)) \<and>
   admin_rows (snd (ensure_admin conn cur w)) \<le> max 1 (admin_rows w)"
  using ensure_admin_outcome [of conn cur w] by (auto dest: admin_rows_target)

lemma ensure_admin_found:
  assumes "0 < admin_rows w"
  shows "new_calls w (snd (ensure_admin conn cur w)) = [Execute cur (SelectUser (lit ''admin''))] \<and>
     target (snd (ensure_admin conn cur w)) = target w"
  using ensure_admin_outcome [of conn cur w] assms by (auto simp: new_calls_def)

lemma ensure_admin_success:
  assumes "new_lines w (snd (ensure_admin conn cur w)) = [] \<or>
           new_lines w (snd (ensure_admin conn cur w)) = [line_admin_created]"
  shows "0 < admin_rows (snd (ensure_admin conn cur w))"
  using ensure_admin_outcome [of conn cur w] assms
  by (auto simp: new_lines_def warn_admin_not_created dest: admin_rows_target)

text \<open>
  Claim C6. When a row with the reserved username exists, the seeding step sends the
  lookup and nothing else, and leaves the database as it is. Running the step twice on a
  database with at most one such row leaves at most one. After a pass that succeeded
  (it printed nothing, or the confirmation) there is exactly one such row, and a second
  pass is a no-op.
\<close>

theorem ensure_admin_idempotent:
  "(0 < admin_rows w \<longrightarrow>
      new_calls w (snd (ensure_admin conn cur w)) = [Execute cur (SelectUser (lit ''admin''))] \<and>
      target (snd (ensure_admin conn cur w)) = target w) \<and>
   (admin_rows w \<le> 1 \<longrightarrow>
      admin_rows (snd (ensure_admin conn cur (snd (ensure_admin conn cur w)))) \<le> 1) \<and>
   (admin_rows w \<le> 1 \<and>
    (new_lines w (snd (ensure_admin conn cur w)) = [] \<or>
     new_lines w (snd (ensure_admin conn cur w)) = [line_admin_created]) \<longrightarrow>
      admin_rows (snd (ensure_admin conn cur w)) = 1 \<and>
      new_calls (snd (ensure_admin conn cur w)) (snd (ensure_admin conn cur (snd (ensure_admin conn cur w)))) =
        [Execute cur (SelectUser (lit ''admin''))] \<and>
      target (snd (ensure_admin conn cur (snd (ensure_admin conn cur w)))) =
        target (snd (ensure_admin conn cur w)))"
proof (intro conjI impI)
  assume "0 < admin_rows w"
  then show "new_calls w (snd (ensure_admin conn cur w)) = [Execute cur (SelectUser (lit ''admin''))]"
    and "target (snd (ensure_admin conn cur w)) = target w"
    using ensure_admin_found by simp_all
next
  let ?w1 = "snd (ensure_admin conn cur w)"
  assume "admin_rows w \<le> 1"
  with ensure_admin_rows [of w conn cur] have "admin_rows ?w1 \<le> 1" by simp
  with ensure_admin_rows [of ?w1 conn cur] show "admin_rows (snd (ensure_admin conn cur ?w1)) \<le> 1"
    by simp
next
  let ?w1 = "snd (ensure_admin conn cur w)"
  assume a: "admin_rows w \<le> 1 \<and> (new_lines w ?w1 = [] \<or> new_lines w ?w1 = [line_admin_created])"
  then have pos: "0 < admin_rows ?w1" using ensure_admin_success by blast
  from a ensure_admin_rows [of w conn cur] have "admin_rows ?w1 \<le> 1" by simp
  with pos show "admin_rows ?w1 = 1" by simp
  from ensure_admin_found [OF pos]
  show "new_calls ?w1 (snd (ensure_admin conn cur ?w1)) = [Execute cur (SelectUser (lit ''admin''))]"
    and "target (snd (ensure_admin conn cur ?w1)) = target ?w1"
    by simp_all
qed

lemma fresh_users_seed:
  "ensure_admin 0 0 fresh_users_world =
     (Inr (), fresh_users_world
        \<lparr> calls := [Execute 0 (SelectUser (lit ''admin'')),
                    Execute 0 (admin_insert fresh_users_world (Some (lit ''admin''))), Commit 0],
          target := Some (users_db [admin_row] (Some [lit ''user'', lit ''admin'', lit ''customer''])),
          stdout := [line_admin_created] \<rparr>)"
  by (simp add: ensure_admin_unfold execute_def commit_eq io_defs admin_insert_def fresh_users_world_def
        plain_world_def users_db_def admin_row_def environ_get_def lit_def)

theorem ensure_admin_idempotent_witness:
  "admin_rows fresh_users_world \<le> 1 \<and>
   new_lines fresh_users_world (snd (ensure_admin 0 0 fresh_users_world)) = [line_admin_created] \<and>
   admin_rows (snd (ensure_admin 0 0 fresh_users_world)) = 1 \<and>
   admin_rows (snd (ensure_admin 0 0 (snd (ensure_admin 0 0 fresh_users_world)))) \<le> 1 \<and>
   new_calls (snd (ensure_admin 0 0 fresh_users_world))
     (snd (ensure_admin 0 0 (snd (ensure_admin 0 0 fresh_users_world)))) =
     [Execute 0 (SelectUser (lit ''admin''))]"
proof -
  let ?w = fresh_users_world
  have a: "admin_rows ?w \<le> 1"
    by (simp add: admin_rows_def fresh_users_world_def plain_world_def users_db_def)
  have b: "new_lines ?w (snd (ensure_admin 0 0 ?w)) = [line_admin_created]"
    by (simp add: fresh_users_seed new_lines_def) (simp add: fresh_users_world_def plain_world_def)
  from ensure_admin_idempotent [of ?w 0 0] a b
  have c: "admin_rows (snd (ensure_admin 0 0 ?w)) = 1"
    and d: "admin_rows (snd (ensure_admin 0 0 (snd (ensure_admin 0 0 ?w)))) \<le> 1"
    and e: "new_calls (snd (ensure_admin 0 0 ?w)) (snd (ensure_admin 0 0 (snd (ensure_admin 0 0 ?w)))) =
       [Execute 0 (SelectUser (lit ''admin''))]"
    by simp_all
  from ensure_admin_idempotent [of "snd (ensure_admin 0 0 ?w)" 0 0] c
  have "target (snd (ensure_admin 0 0 (snd (ensure_admin 0 0 ?w)))) = target (snd (ensure_admin 0 0 ?w))"
    by simp
  with a b c d e show ?thesis by simp
qed

section \<open>Applying the migration files\<close>

lemma map_filter_append: "List.map_filter f (xs @ ys) = List.map_filter f xs @ List.map_filter f ys"
  by (simp add: List.map_filter_def)

lemma subseq_map_filter: "subseq xs ys \<Longrightarrow> subseq (List.map_filter f xs) (List.map_filter f ys)"
  by (simp add: List.map_filter_def subseq_map subseq_filter)

lemma raw_calls_obs [simp]:
  "lookups (map (\<lambda>s. Execute c (Raw s)) ss) = []"
  "records (map (\<lambda>s. Execute c (Raw s)) ss) = []"
  "raw_statements (map (\<lambda>s. Execute c (Raw s)) ss) = ss"
  by (induction ss) (simp_all add: lookups_def records_def raw_statements_def)

lemma obs_append [simp]:
  "lookups (xs @ ys) = lookups xs @ lookups ys"
  "records (xs @ ys) = records xs @ records ys"
  "raw_statements (xs @ ys) = raw_statements xs @ raw_statements ys"
  by (simp_all add: lookups_def records_def raw_statements_def map_filter_append)

lemma obs_Cons [simp]:
  "lookups (c # cs) = (case lookup_of c of None \<Rightarrow> lookups cs | Some n \<Rightarrow> n # lookups cs)"
  "records (c # cs) = (case record_of c of None \<Rightarrow> records cs | Some n \<Rightarrow> n # records cs)"
  "raw_statements (c # cs) = (case statement_of c of None \<Rightarrow> raw_statements cs | Some n \<Rightarrow> n # raw_statements cs)"
  "lookups [] = []" "records [] = []" "raw_statements [] = []"
  by (simp_all add: lookups_def records_def raw_statements_def split: option.splits)

lemma apply_script_obs:
  "lookups (apply_script conn path) = []"
  "records (apply_script conn path) = [fst path]"
  "raw_statements (apply_script conn path) = statements (snd path)"
  by (simp_all add: apply_script_def)

lemma prefix_apply_script:
  assumes "prefix p (apply_script conn path)"
  shows "lookups p = [] \<and> subseq (records p) [fst path] \<and>
         prefix (raw_statements p) (statements (snd path))"
proof -
  from assms have s: "subseq p (apply_script conn path)" by (rule prefix_imp_subseq)
  have "subseq (lookups p) (lookups (apply_script conn path))"
    unfolding lookups_def by (rule subseq_map_filter [OF s])
  moreover have "subseq (records p) (records (apply_script conn path))"
    unfolding records_def by (rule subseq_map_filter [OF s])
  moreover from assms obtain z where "apply_script conn path = p @ z" by (auto simp: prefix_def)
  then have "raw_statements (apply_script conn path) = raw_statements p @ raw_statements z"
    by simp
  then have "prefix (raw_statements p) (raw_statements (apply_script conn path))"
    by (simp add: prefix_def)
  ultimately show ?thesis by (simp add: apply_script_obs)
qed

lemma loop_line_not_complete:
  "line_skipping n \<noteq> line_complete" "line_applying n \<noteq> line_complete"
  "line_warn_stmt n s e \<noteq> line_complete" "line_conn_failed \<noteq> line_complete"
  by (simp_all add: line_skipping_def line_applying_def line_warn_stmt_def line_complete_def
        line_conn_failed_def lit_def)

lemma no_faults_from_mono:
  "no_faults_from w n \<Longrightarrow> same_setting w w' \<Longrightarrow> n \<le> m \<Longrightarrow> no_faults_from w' m"
  by (simp add: no_faults_from_def same_setting_def)

lemma insert_migration_ok:
  assumes "faults w (length (calls w)) = None" and "tracking w = Some ns" and "n \<notin> set ns"
  shows "\<exists>w'. execute c (InsertMigration n) w = (Inr 0, w') \<and> tracking w' = Some (ns @ [n])"
  using assms
  by (auto simp: execute_def io_defs Let_def tracking_def split: option.splits)

text \<open>One file, when the cursor, the record and the commit do not fail.\<close>

lemma apply_migration_nominal:
  assumes kt: "keeps_tracking (engine w)"
    and tr: "tracking w = Some ns" and fresh: "fst path \<notin> set ns"
    and f0: "faults w (length (calls w)) = None"
    and f1: "faults w (length (calls w) + 1 + length (statements (snd path))) = None"
    and f2: "faults w (length (calls w) + 2 + length (statements (snd path))) = None"
  shows "\<exists>w'. apply_migration conn path w = (Inr (), w') \<and> tracking w' = Some (ns @ [fst path])"
proof -
  define w1 where "w1 = w\<lparr>calls := calls w @ [Cursor conn]\<rparr>"
  define stmts where "stmts = statements (snd path)"
  obtain w2 warns where rs: "run_statements conn (fst path) stmts w1 = (Inr (), w2)"
    and c2: "calls w2 = calls w1 @ map (\<lambda>s. Execute conn (Raw s)) stmts"
    and s2: "same_setting w1 w2"
    and t2: "keeps_tracking (engine w1) \<longrightarrow> tracking w2 = tracking w1"
    using run_statements_effect [of conn "fst path" stmts w1] by blast
  have fw2: "faults w2 = faults w" using s2 by (simp add: same_setting_def w1_def)
  have tw2: "tracking w2 = Some ns" using t2 kt tr by (simp add: w1_def)
  have l2: "length (calls w2) = length (calls w) + 1 + length stmts" using c2 by (simp add: w1_def)
  from insert_migration_ok [of w2 ns "fst path" conn] f1 fw2 tw2 l2 fresh
  obtain w3 where ins: "execute conn (InsertMigration (fst path)) w2 = (Inr 0, w3)"
    and t3: "tracking w3 = Some (ns @ [fst path])"
    by (auto simp: stmts_def)
  note e3 = execute_effect [OF ins]
  have f3: "faults w3 (length (calls w3)) = None"
    using e3 fw2 l2 f2 by (simp add: same_setting_def stmts_def)
  have "apply_migration conn path w = commit conn w3"
    using f0 rs ins by (simp add: apply_migration_def and_then_def cursor_eq w1_def stmts_def)
  with f3 t3 show ?thesis by (simp add: commit_eq)
qed

text \<open>The loop, whatever fails.\<close>

lemma apply_pending_effect:
  assumes "apply_pending conn cur paths w = (r, w')"
  shows "\<exists>new out. calls w' = calls w @ new \<and> stdout w' = stdout w @ out \<and> same_setting w w' \<and>
     next_conn w' = next_conn w \<and> open_conns w' = open_conns w \<and>
     prefix (lookups new) (map fst paths) \<and> subseq (records new) (map fst paths) \<and>
     (r = Inr () \<longrightarrow> lookups new = map fst paths) \<and> (\<forall>l\<in>set out. l \<noteq> line_complete)"
  using assms
proof (induction paths arbitrary: w r w')
  case Nil
  then show ?case by (auto simp: ret_def)
next
  case (Cons path paths)
  let ?n = "fst path"
  let ?L = "Execute cur (SelectMigration ?n)"
  define b where "b = (faults w (length (calls w)) = None \<and> ?n \<in> set (recorded w))"
  define w0 where "w0 = w\<lparr>calls := calls w @ [?L]\<rparr>"
  have aa: "already_applied cur ?n w = (Inr b, w0)"
    by (simp add: already_applied_eq b_def w0_def)
  show ?case
  proof (cases b)
    case True
    define ws where "ws = w0\<lparr>stdout := stdout w0 @ [line_skipping ?n]\<rparr>"
    have "apply_pending conn cur (path # paths) w = apply_pending conn cur paths ws"
      using aa True by (simp add: and_then_def print_def ws_def)
    with Cons.prems have "apply_pending conn cur paths ws = (r, w')" by simp
    from Cons.IH [OF this] obtain new out where
      IH: "calls w' = calls ws @ new" "stdout w' = stdout ws @ out" "same_setting ws w'"
        "next_conn w' = next_conn ws" "open_conns w' = open_conns ws"
        "prefix (lookups new) (map fst paths)" "subseq (records new) (map fst paths)"
        "r = Inr () \<longrightarrow> lookups new = map fst paths" "\<forall>l\<in>set out. l \<noteq> line_complete"
      by blast
    show ?thesis
    proof (intro exI [of _ "?L # new"] exI [of _ "line_skipping ?n # out"] conjI)
      show "calls w' = calls w @ ?L # new" using IH(1) by (simp add: ws_def w0_def)
      show "stdout w' = stdout w @ line_skipping ?n # out" using IH(2) by (simp add: ws_def w0_def)
      show "same_setting w w'" using IH(3) by (simp add: ws_def w0_def same_setting_def)
      show "next_conn w' = next_conn w" using IH(4) by (simp add: ws_def w0_def)
      show "open_conns w' = open_conns w" using IH(5) by (simp add: ws_def w0_def)
      show "prefix (lookups (?L # new)) (map fst (path # paths))" using IH(6) by simp
      show "subseq (records (?L # new)) (map fst (path # paths))" using IH(7) by (auto intro: list_emb_Cons)
      show "r = Inr () \<longrightarrow> lookups (?L # new) = map fst (path # paths)" using IH(8) by simp
      show "\<forall>l\<in>set (line_skipping ?n # out). l \<noteq> line_complete"
        using IH(9) by (simp add: loop_line_not_complete)
    qed
  next
    case False
    define wa where "wa = w0\<lparr>stdout := stdout w0 @ [line_applying ?n]\<rparr>"
    obtain r1 w1 where am: "apply_migration conn path wa = (r1, w1)"
      by (cases "apply_migration conn path wa") auto
    from apply_migration_effect [OF am] obtain new1 warns where
      m: "calls w1 = calls wa @ new1" "prefix new1 (apply_script conn path)"
         "same_setting wa w1" "next_conn w1 = next_conn wa" "open_conns w1 = open_conns wa"
         "stdout w1 = stdout wa @ warns"
         "\<forall>l\<in>set warns. \<exists>s e. s \<in> set (statements (snd path)) \<and> l = line_warn_stmt ?n s e"
      by blast
    note obs1 = prefix_apply_script [OF m(2)]
    have warns: "\<forall>l\<in>set warns. l \<noteq> line_complete"
    proof
      fix l assume "l \<in> set warns"
      with m(7) obtain s e where "l = line_warn_stmt ?n s e" by blast
      then show "l \<noteq> line_complete" by (simp add: loop_line_not_complete)
    qed
    have step: "apply_pending conn cur (path # paths) w =
        (case r1 of Inl e \<Rightarrow> (Inl e, w1) | Inr u \<Rightarrow> apply_pending conn cur paths w1)"
      using aa False am by (simp add: and_then_def print_def wa_def split: sum.splits)
    show ?thesis
    proof (cases r1)
      case (Inl e)
      with step Cons.prems have rw: "r = Inl e" "w' = w1" by simp_all
      show ?thesis
      proof (intro exI [of _ "?L # new1"] exI [of _ "line_applying ?n # warns"] conjI)
        show "calls w' = calls w @ ?L # new1" using m(1) rw by (simp add: wa_def w0_def)
        show "stdout w' = stdout w @ line_applying ?n # warns" using m(6) rw by (simp add: wa_def w0_def)
        show "same_setting w w'" using m(3) rw by (simp add: wa_def w0_def same_setting_def)
        show "next_conn w' = next_conn w" using m(4) rw by (simp add: wa_def w0_def)
        show "open_conns w' = open_conns w" using m(5) rw by (simp add: wa_def w0_def)
        show "prefix (lookups (?L # new1)) (map fst (path # paths))" using obs1 by simp
        show "subseq (records (?L # new1)) (map fst (path # paths))"
          using list_emb_append_mono [of "(=)" "records new1" "[?n]" "[]" "map fst paths"] obs1
          by simp
        show "r = Inr () \<longrightarrow> lookups (?L # new1) = map fst (path # paths)" using rw by simp
        show "\<forall>l\<in>set (line_applying ?n # warns). l \<noteq> line_complete"
          using warns by (simp add: loop_line_not_complete)
      qed
    next
      case (Inr u)
      with step Cons.prems have "apply_pending conn cur paths w1 = (r, w')" by simp
      from Cons.IH [OF this] obtain new out where
        IH: "calls w' = calls w1 @ new" "stdout w' = stdout w1 @ out" "same_setting w1 w'"
          "next_conn w' = next_conn w1" "open_conns w' = open_conns w1"
          "prefix (lookups new) (map fst paths)" "subseq (records new) (map fst paths)"
          "r = Inr () \<longrightarrow> lookups new = map fst paths" "\<forall>l\<in>set out. l \<noteq> line_complete"
        by blast
      have rec1: "subseq (records new1) [?n]" using obs1 by simp
      show ?thesis
      proof (intro exI [of _ "?L # new1 @ new"] exI [of _ "line_applying ?n # warns @ out"] conjI)
        show "calls w' = calls w @ ?L # new1 @ new" using m(1) IH(1) by (simp add: wa_def w0_def)
        show "stdout w' = stdout w @ line_applying ?n # warns @ out"
          using m(6) IH(2) by (simp add: wa_def w0_def)
        show "same_setting w w'" using m(3) IH(3) by (simp add: wa_def w0_def same_setting_def)
        show "next_conn w' = next_conn w" using m(4) IH(4) by (simp add: wa_def w0_def)
        show "open_conns w' = open_conns w" using m(5) IH(5) by (simp add: wa_def w0_def)
        show "prefix (lookups (?L # new1 @ new)) (map fst (path # paths))" using obs1 IH(6) by simp
        show "subseq (records (?L # new1 @ new)) (map fst (path # paths))"
          using list_emb_append_mono [OF rec1 IH(7)] by simp
        show "r = Inr () \<longrightarrow> lookups (?L # new1 @ new) = map fst (path # paths)"
          using obs1 IH(8) by simp
        show "\<forall>l\<in>set (line_applying ?n # warns @ out). l \<noteq> line_complete"
          using warns IH(9) by (auto simp: loop_line_not_complete)
      qed
    qed
  qed
qed

text \<open>
  The loop when no driver call fails for a reason of its own and no statement of a file
  writes to the tracking table: statements of the files may still fail.
\<close>

lemma apply_pending_nominal:
  assumes "keeps_tracking (engine w)" and "no_faults_from w (length (calls w))"
    and "tracking w = Some ns" and "distinct (map fst paths)"
  shows "\<exists>w' new blocks. apply_pending conn cur paths w = (Inr (), w') \<and> calls w' = calls w @ new \<and>
     tracking w' = Some (ns @ filter (\<lambda>n. n \<notin> set ns) (map fst paths)) \<and>
     records new = filter (\<lambda>n. n \<notin> set ns) (map fst paths) \<and>
     raw_statements new = concat (map (\<lambda>p. statements (snd p)) (filter (\<lambda>p. fst p \<notin> set ns) paths)) \<and>
     stdout w' = stdout w @ concat blocks \<and> list_all2 (unit_block ns) paths blocks"
  using assms
proof (induction paths arbitrary: w ns)
  case Nil
  show ?case by (simp add: ret_def Nil.prems)
next
  case (Cons path paths)
  let ?n = "fst path"
  let ?L = "Execute cur (SelectMigration ?n)"
  note kt = Cons.prems(1) and nf = Cons.prems(2) and tr = Cons.prems(3)
  from Cons.prems(4) have dist: "distinct (map fst paths)" and notin: "?n \<notin> set (map fst paths)"
    by simp_all
  have f: "\<And>k. length (calls w) \<le> k \<Longrightarrow> faults w k = None"
    using nf by (simp add: no_faults_from_def)
  have rec: "recorded w = ns" using tr by (simp add: recorded_def)
  define w0 where "w0 = w\<lparr>calls := calls w @ [?L]\<rparr>"
  have aa: "already_applied cur ?n w = (Inr (?n \<in> set ns), w0)"
    by (simp add: already_applied_eq f rec w0_def)
  show ?case
  proof (cases "?n \<in> set ns")
    case True
    define ws where "ws = w0\<lparr>stdout := stdout w0 @ [line_skipping ?n]\<rparr>"
    have step: "apply_pending conn cur (path # paths) w = apply_pending conn cur paths ws"
      using aa True by (simp add: and_then_def print_def ws_def)
    have p: "keeps_tracking (engine ws)" "no_faults_from ws (length (calls ws))" "tracking ws = Some ns"
      using kt tr f by (simp_all add: ws_def w0_def no_faults_from_def)
    from Cons.IH [OF p dist] obtain w' new blocks where
      IH: "apply_pending conn cur paths ws = (Inr (), w')" "calls w' = calls ws @ new"
        "tracking w' = Some (ns @ filter (\<lambda>n. n \<notin> set ns) (map fst paths))"
        "records new = filter (\<lambda>n. n \<notin> set ns) (map fst paths)"
        "raw_statements new = concat (map (\<lambda>p. statements (snd p)) (filter (\<lambda>p. fst p \<notin> set ns) paths))"
        "stdout w' = stdout ws @ concat blocks" "list_all2 (unit_block ns) paths blocks"
      by blast
    show ?thesis
    proof (intro exI [of _ w'] exI [of _ "?L # new"] exI [of _ "[line_skipping ?n] # blocks"] conjI)
      show "apply_pending conn cur (path # paths) w = (Inr (), w')" using step IH(1) by simp
      show "calls w' = calls w @ ?L # new" using IH(2) by (simp add: ws_def w0_def)
      show "tracking w' = Some (ns @ filter (\<lambda>n. n \<notin> set ns) (map fst (path # paths)))"
        using IH(3) True by simp
      show "records (?L # new) = filter (\<lambda>n. n \<notin> set ns) (map fst (path # paths))"
        using IH(4) True by simp
      show "raw_statements (?L # new) =
          concat (map (\<lambda>p. statements (snd p)) (filter (\<lambda>p. fst p \<notin> set ns) (path # paths)))"
        using IH(5) True by simp
      show "stdout w' = stdout w @ concat ([line_skipping ?n] # blocks)"
        using IH(6) by (simp add: ws_def w0_def)
      show "list_all2 (unit_block ns) (path # paths) ([line_skipping ?n] # blocks)"
        using IH(7) True by (simp add: unit_block_def)
    qed
  next
    case False
    define wa where "wa = w0\<lparr>stdout := stdout w0 @ [line_applying ?n]\<rparr>"
    have pa: "keeps_tracking (engine wa)" "tracking wa = Some ns"
      "faults wa (length (calls wa)) = None"
      "faults wa (length (calls wa) + 1 + length (statements (snd path))) = None"
      "faults wa (length (calls wa) + 2 + length (statements (snd path))) = None"
      using kt tr f by (simp_all add: wa_def w0_def)
    from apply_migration_nominal [OF pa(1,2) False pa(3,4,5), of conn]
    obtain w1 where am: "apply_migration conn path wa = (Inr (), w1)"
      and t1: "tracking w1 = Some (ns @ [?n])"
      by blast
    from apply_migration_effect [OF am] obtain warns where
      m: "calls w1 = calls wa @ apply_script conn path" "same_setting wa w1"
         "stdout w1 = stdout wa @ warns"
         "\<forall>l\<in>set warns. \<exists>s e. s \<in> set (statements (snd path)) \<and> l = line_warn_stmt ?n s e"
      by auto
    have step: "apply_pending conn cur (path # paths) w = apply_pending conn cur paths w1"
      using aa False am by (simp add: and_then_def print_def wa_def)
    have p: "keeps_tracking (engine w1)" "no_faults_from w1 (length (calls w1))"
      using kt f m(1,2) by (simp_all add: wa_def w0_def no_faults_from_def same_setting_def)
    have flt: "filter (\<lambda>m. m \<notin> set (ns @ [?n])) (map fst paths) = filter (\<lambda>m. m \<notin> set ns) (map fst paths)"
    proof (rule filter_cong [OF refl])
      fix m assume "m \<in> set (map fst paths)"
      with notin have "m \<noteq> ?n" by metis
      then show "(m \<notin> set (ns @ [?n])) = (m \<notin> set ns)" by simp
    qed
    have ne: "fst p \<noteq> ?n" if "p \<in> set paths" for p
    proof
      assume "fst p = ?n"
      with that have "?n \<in> fst ` set paths" by (metis imageI)
      with notin show False by simp
    qed
    have flt': "filter (\<lambda>p. fst p \<notin> set (ns @ [?n])) paths = filter (\<lambda>p. fst p \<notin> set ns) paths"
    proof (rule filter_cong [OF refl])
      fix p assume "p \<in> set paths"
      then have "fst p \<noteq> ?n" by (rule ne)
      then show "(fst p \<notin> set (ns @ [?n])) = (fst p \<notin> set ns)" by simp
    qed
    from Cons.IH [OF p t1 dist] obtain w' new blocks where
      IH: "apply_pending conn cur paths w1 = (Inr (), w')" "calls w' = calls w1 @ new"
        "tracking w' = Some ((ns @ [?n]) @ filter (\<lambda>m. m \<notin> set (ns @ [?n])) (map fst paths))"
        "records new = filter (\<lambda>m. m \<notin> set (ns @ [?n])) (map fst paths)"
        "raw_statements new =
           concat (map (\<lambda>p. statements (snd p)) (filter (\<lambda>p. fst p \<notin> set (ns @ [?n])) paths))"
        "stdout w' = stdout w1 @ concat blocks" "list_all2 (unit_block (ns @ [?n])) paths blocks"
      by blast
    have blocks: "list_all2 (unit_block ns) paths blocks"
    proof (rule list.rel_mono_strong [OF IH(7)])
      fix p b assume "p \<in> set paths" and ub: "unit_block (ns @ [?n]) p b"
      then have "fst p \<noteq> ?n" using ne by simp
      with ub show "unit_block ns p b" by (simp add: unit_block_def)
    qed
    show ?thesis
    proof (intro exI [of _ w'] exI [of _ "?L # apply_script conn path @ new"]
        exI [of _ "(line_applying ?n # warns) # blocks"] conjI)
      show "apply_pending conn cur (path # paths) w = (Inr (), w')" using step IH(1) by simp
      show "calls w' = calls w @ ?L # apply_script conn path @ new"
        using IH(2) m(1) by (simp add: wa_def w0_def)
      show "tracking w' = Some (ns @ filter (\<lambda>n. n \<notin> set ns) (map fst (path # paths)))"
        using IH(3) False flt by simp
      show "records (?L # apply_script conn path @ new) = filter (\<lambda>n. n \<notin> set ns) (map fst (path # paths))"
        using IH(4) False flt by (simp add: apply_script_obs)
      show "raw_statements (?L # apply_script conn path @ new) =
          concat (map (\<lambda>p. statements (snd p)) (filter (\<lambda>p. fst p \<notin> set ns) (path # paths)))"
        using IH(5) False flt' by (simp add: apply_script_obs)
      show "stdout w' = stdout w @ concat ((line_applying ?n # warns) # blocks)"
        using IH(6) m(3) by (simp add: wa_def w0_def)
      show "list_all2 (unit_block ns) (path # paths) ((line_applying ?n # warns) # blocks)"
        using blocks False m(4) by (simp add: unit_block_def)
    qed
  qed
qed

section \<open>Loading the migration files\<close>

lemma load_migrations_sorted: "sorted (map fst (load_migrations dir))"
  by (simp add: load_migrations_def)

lemma load_migrations_mset: "mset (load_migrations dir) = mset (filter (\<lambda>p. is_sql (fst p)) dir)"
  by (simp add: load_migrations_def)

lemma load_migrations_distinct:
  assumes "distinct (map fst dir)"
  shows "distinct (map fst (load_migrations dir))"
proof -
  have "mset (map fst (load_migrations dir)) = mset (map fst (filter (\<lambda>p. is_sql (fst p)) dir))"
    using load_migrations_mset [of dir] by (metis mset_map)
  moreover have "distinct (map fst (filter (\<lambda>p. is_sql (fst p)) dir))"
    using assms by (rule distinct_map_filter)
  ultimately show ?thesis by (metis mset_eq_imp_distinct_iff)
qed

lemma filter_same_key:
  "distinct (map f zs) \<Longrightarrow> k \<in> set zs \<Longrightarrow> filter (\<lambda>x. f k = f x) zs = [k]"
proof (induction zs)
  case Nil
  then show ?case by simp
next
  case (Cons z zs)
  show ?case
  proof (cases "k = z")
    case True
    with Cons.prems have "\<forall>x\<in>set zs. f k \<noteq> f x" by (auto simp: image_iff)
    then have "filter (\<lambda>x. f k = f x) zs = []" by (simp add: filter_empty_conv)
    with True show ?thesis by simp
  next
    case False
    with Cons.prems have k: "k \<in> set zs" and d: "distinct (map f zs)" and "f z \<notin> f ` set zs"
      by auto
    then have "f k \<noteq> f z" by (metis imageI)
    with Cons.IH [OF d k] show ?thesis by simp
  qed
qed

lemma load_migrations_perm:
  assumes "distinct (map fst dir)" and "mset dir' = mset dir"
  shows "load_migrations dir' = load_migrations dir"
proof -
  let ?P = "\<lambda>p. is_sql (fst p)"
  let ?ys = "load_migrations dir"
  have m: "mset ?ys = mset (filter ?P dir')"
    using assms(2) by (simp add: load_migrations_mset)
  have d': "distinct (map fst (filter ?P dir'))"
  proof -
    have "mset (map fst dir') = mset (map fst dir)" using assms(2) by (metis mset_map)
    with assms(1) have "distinct (map fst dir')" by (metis mset_eq_imp_distinct_iff)
    then show ?thesis by (rule distinct_map_filter)
  qed
  have "sort_key fst (filter ?P dir') = ?ys"
  proof (rule properties_for_sort_key [OF m])
    fix k assume k: "k \<in> set ?ys"
    then have k': "k \<in> set (filter ?P dir')" using m by (metis set_mset_mset)
    show "filter (\<lambda>x. fst k = fst x) ?ys = filter (\<lambda>x. fst k = fst x) (filter ?P dir')"
      using filter_same_key [OF load_migrations_distinct [OF assms(1)] k]
        filter_same_key [OF d' k'] by simp
  next
    show "sorted (map fst ?ys)" by (rule load_migrations_sorted)
  qed
  then show ?thesis by (simp add: load_migrations_def)
qed

section \<open>The run as a whole\<close>

lemma main_unfold:
  "main w =
     (case connect_mysql True w of
        (Inl e, w1) \<Rightarrow> (Inl e, w1)
      | (Inr None, w1) \<Rightarrow> (Inr (), w1\<lparr>stdout := stdout w1 @ [line_conn_failed]\<rparr>)
      | (Inr (Some conn), w1) \<Rightarrow>
          (case migrate_part conn w1 of
             (Inl e, w2) \<Rightarrow> (Inl e, w2)
           | (Inr u, w2) \<Rightarrow> ensure_admin conn conn (w2\<lparr>stdout := stdout w2 @ [line_complete]\<rparr>)))"
  by (auto simp: main_def migrate_part_def and_then_def print_def cursor_eq
      split: prod.splits sum.splits option.splits)

lemma connect_with_target:
  assumes "connect_with drv c create w = (r, w')"
  shows "(\<forall>k. r = Inr (Some k) \<longrightarrow> target w' \<noteq> None) \<and> tracking w' = tracking w \<and>
         admin_rows w' = admin_rows w \<and> (target w \<noteq> None \<longrightarrow> target w' = target w)"
  using assms
  unfolding connect_with_def connect_def cursor_def execute_def commit_def close_def import_driver_def
    io_defs Let_def tracking_def admin_rows_def empty_db_def
  by (auto split: if_splits option.splits sum.splits prod.splits)

lemma connect_mysql_effect:
  assumes "mysql_config (environ w) = Inr c" and "connect_mysql create w = (r, w')"
  shows "(\<exists>new. calls w' = calls w @ new \<and> lookups new = [] \<and> records new = [] \<and> raw_statements new = []) \<and>
     stdout w' = stdout w \<and> same_setting w w' \<and>
     tracking w' = tracking w \<and> admin_rows w' = admin_rows w \<and>
     (\<forall>k. r = Inr (Some k) \<longrightarrow> target w' \<noteq> None) \<and>
     (r = Inr None \<or> (\<exists>k. r = Inr (Some k)))"
proof -
  obtain r1 w1 where a: "connect_with PyMySQL c create w = (r1, w1)"
    by (cases "connect_with PyMySQL c create w") auto
  obtain r2 w2 where b: "connect_with MySQLConnector c create w1 = (r2, w2)"
    by (cases "connect_with MySQLConnector c create w1") auto
  have obs: "lookups p = [] \<and> records p = [] \<and> raw_statements p = []"
    if "prefix p (attempt_script drv (database c) create t)" for p drv t
  proof -
    from that have s: "subseq p (attempt_script drv (database c) create t)" by (rule prefix_imp_subseq)
    have "subseq (lookups p) (lookups (attempt_script drv (database c) create t))"
      "subseq (records p) (records (attempt_script drv (database c) create t))"
      "subseq (raw_statements p) (raw_statements (attempt_script drv (database c) create t))"
      unfolding lookups_def records_def raw_statements_def by (rule subseq_map_filter [OF s])+
    then show ?thesis by (simp add: attempt_script_def split: if_splits)
  qed
  from connect_with_effect [OF a] obtain p where
    p: "calls w1 = calls w @ p" "prefix p (attempt_script PyMySQL (database c) create (next_conn w))"
    by blast
  from connect_with_effect [OF b] obtain q where
    q: "calls w2 = calls w1 @ q" "prefix q (attempt_script MySQLConnector (database c) create (next_conn w1))"
    by blast
  note sa = connect_with_setting [OF a] and sb = connect_with_setting [OF b]
  note ta = connect_with_target [OF a] and tb = connect_with_target [OF b]
  have res: "(r, w') = (case r1 of Inr (Some k) \<Rightarrow> (Inr (Some k), w1)
                | _ \<Rightarrow> (case r2 of Inr (Some k) \<Rightarrow> (Inr (Some k), w2) | _ \<Rightarrow> (Inr None, w2)))"
    using a b assms(2)
    by (auto simp: connect_mysql_unfold [OF assms(1)] split: sum.splits option.splits)
  show ?thesis
  proof (cases "\<exists>k. r1 = Inr (Some k)")
    case True
    then obtain k where r1: "r1 = Inr (Some k)" by blast
    with res have "r = Inr (Some k)" "w' = w1" by simp_all
    with r1 p obs [OF p(2)] sa ta show ?thesis by auto
  next
    case False
    with res have w': "w' = w2" and r: "r = (case r2 of Inr (Some k) \<Rightarrow> Inr (Some k) | _ \<Rightarrow> Inr None)"
      by (auto split: sum.splits option.splits)
    have "calls w' = calls w @ (p @ q)" using p q w' by simp
    moreover have "lookups (p @ q) = [] \<and> records (p @ q) = [] \<and> raw_statements (p @ q) = []"
      using obs [OF p(2)] obs [OF q(2)] by simp
    moreover have "same_setting w w'" using sa sb w' same_setting_trans by blast
    moreover have "stdout w' = stdout w" "tracking w' = tracking w" "admin_rows w' = admin_rows w"
      using sa sb ta tb w' by simp_all
    moreover have "\<forall>k. r = Inr (Some k) \<longrightarrow> target w' \<noteq> None"
      using tb r w' by (auto split: sum.splits option.splits)
    moreover have "r = Inr None \<or> (\<exists>k. r = Inr (Some k))"
      using r by (auto split: sum.splits option.splits)
    ultimately show ?thesis by blast
  qed
qed

lemma create_tracking_ok:
  assumes "faults w (length (calls w)) = None" and "target w \<noteq> None"
  shows "\<exists>w'. execute c CreateTrackingTable w = (Inr 0, w') \<and> tracking w' = Some (recorded w) \<and>
     admin_rows w' = admin_rows w"
  using assms
  by (auto simp: execute_def io_defs Let_def tracking_def recorded_def admin_rows_def split: option.splits)

lemma migrate_part_started:
  assumes f0: "faults w (length (calls w)) = None"
    and f1: "faults w (Suc (length (calls w))) = None"
    and f2: "faults w (Suc (Suc (length (calls w)))) = None"
    and tg: "target w \<noteq> None"
  shows "\<exists>w3. migrate_part conn w = apply_pending conn conn (load_migrations (migrations_dir w)) w3 \<and>
     calls w3 = calls w @ [Cursor conn, Execute conn CreateTrackingTable, Commit conn] \<and>
     stdout w3 = stdout w \<and> same_setting w w3 \<and> tracking w3 = Some (recorded w) \<and>
     admin_rows w3 = admin_rows w \<and> next_conn w3 = next_conn w \<and> open_conns w3 = open_conns w"
proof -
  define w1 where "w1 = w\<lparr>calls := calls w @ [Cursor conn]\<rparr>"
  have "faults w1 (length (calls w1)) = None" "target w1 \<noteq> None" using f1 tg by (simp_all add: w1_def)
  from create_tracking_ok [OF this, of conn] obtain w2 where
    ct: "execute conn CreateTrackingTable w1 = (Inr 0, w2)" and t2: "tracking w2 = Some (recorded w1)"
    and a2: "admin_rows w2 = admin_rows w1"
    by blast
  note e2 = execute_effect [OF ct]
  define w3 where "w3 = w2\<lparr>calls := calls w2 @ [Commit conn]\<rparr>"
  have f2': "faults w2 (length (calls w2)) = None" using e2 f2 by (simp add: w1_def same_setting_def)
  have md: "migrations_dir w3 = migrations_dir w" using e2 by (simp add: w3_def w1_def same_setting_def)
  have "migrate_part conn w = apply_pending conn conn (load_migrations (migrations_dir w)) w3"
    using f0 ct f2' md by (simp add: migrate_part_def and_then_def cursor_eq commit_eq w1_def w3_def)
  moreover have "calls w3 = calls w @ [Cursor conn, Execute conn CreateTrackingTable, Commit conn]"
    "stdout w3 = stdout w" "same_setting w w3" "tracking w3 = Some (recorded w)"
    "admin_rows w3 = admin_rows w" "next_conn w3 = next_conn w" "open_conns w3 = open_conns w"
    using e2 t2 a2 by (simp_all add: w3_def w1_def same_setting_def recorded_def)
  ultimately show ?thesis by blast
qed

text \<open>The part of the run between the connection and the completion line, whatever fails.\<close>

lemma migrate_part_effect:
  assumes "migrate_part conn w = (r, w')"
  shows "\<exists>new out. calls w' = calls w @ new \<and> stdout w' = stdout w @ out \<and> same_setting w w' \<and>
     next_conn w' = next_conn w \<and> open_conns w' = open_conns w \<and>
     prefix (lookups new) (map fst (load_migrations (migrations_dir w))) \<and>
     subseq (records new) (map fst (load_migrations (migrations_dir w))) \<and>
     (r = Inr () \<longrightarrow> lookups new = map fst (load_migrations (migrations_dir w))) \<and>
     (\<forall>l\<in>set out. l \<noteq> line_complete)"
proof -
  define w1 where "w1 = w\<lparr>calls := calls w @ [Cursor conn]\<rparr>"
  obtain r2 w2 where ct: "execute conn CreateTrackingTable w1 = (r2, w2)"
    by (cases "execute conn CreateTrackingTable w1") auto
  note e2 = execute_effect [OF ct]
  define w3 where "w3 = w2\<lparr>calls := calls w2 @ [Commit conn]\<rparr>"
  have md: "migrations_dir w3 = migrations_dir w" using e2 by (simp add: w3_def w1_def same_setting_def)
  have early: ?thesis if "w' = w1 \<or> w' = w2 \<or> w' = w3" and "r \<noteq> Inr ()"
    using that e2
    by (elim disjE; intro exI [of _ "[]"] exI [of _ "drop (length (calls w)) (calls w')"])
       (auto simp: w1_def w3_def same_setting_def)
  show ?thesis
  proof (cases "faults w (length (calls w))")
    case (Some e)
    with assms have "r = Inl e" "w' = w1"
      by (simp_all add: migrate_part_def and_then_def cursor_eq w1_def)
    then show ?thesis using early by simp
  next
    case None
    show ?thesis
    proof (cases r2)
      case (Inl e)
      with assms None ct have "r = Inl e" "w' = w2"
        by (simp_all add: migrate_part_def and_then_def cursor_eq w1_def)
      then show ?thesis using early by simp
    next
      case (Inr n)
      show ?thesis
      proof (cases "faults w2 (length (calls w2))")
        case (Some e)
        with assms None ct Inr have "r = Inl e" "w' = w3"
          by (simp_all add: migrate_part_def and_then_def cursor_eq commit_eq w1_def w3_def)
        then show ?thesis using early by simp
      next
        case N: None
        with assms None ct Inr md
        have "apply_pending conn conn (load_migrations (migrations_dir w)) w3 = (r, w')"
          by (simp add: migrate_part_def and_then_def cursor_eq commit_eq w1_def w3_def)
        from apply_pending_effect [OF this] obtain new out where
          ap: "calls w' = calls w3 @ new" "stdout w' = stdout w3 @ out" "same_setting w3 w'"
            "next_conn w' = next_conn w3" "open_conns w' = open_conns w3"
            "prefix (lookups new) (map fst (load_migrations (migrations_dir w)))"
            "subseq (records new) (map fst (load_migrations (migrations_dir w)))"
            "r = Inr () \<longrightarrow> lookups new = map fst (load_migrations (migrations_dir w))"
            "\<forall>l\<in>set out. l \<noteq> line_complete"
          by blast
        show ?thesis
          using ap e2
          by (intro exI [of _ "[Cursor conn, Execute conn CreateTrackingTable, Commit conn] @ new"]
                exI [of _ out])
             (simp add: w3_def w1_def same_setting_def)
      qed
    qed
  qed
qed

lemma connect_mysql_bad_config:
  "mysql_config (environ w) = Inl e \<Longrightarrow> connect_mysql create w = (Inl e, w)"
  by (simp add: connect_mysql_def)

lemma ensure_admin_effect:
  "\<exists>w' new seed. ensure_admin conn cur w = (Inr (), w') \<and> calls w' = calls w @ new \<and>
     lookups new = [] \<and> records new = [] \<and> raw_statements new = [] \<and>
     stdout w' = stdout w @ seed \<and> same_setting w w' \<and> tracking w' = tracking w \<and>
     next_conn w' = next_conn w \<and> open_conns w' = open_conns w \<and>
     ((seed = [] \<and> 0 < admin_rows w') \<or> (seed = [line_admin_created] \<and> admin_rows w' = 1) \<or>
      (\<exists>e. seed = [line_warn_admin e]))"
proof -
  from ensure_admin_outcome [of conn cur w] obtain w' new out where
    o: "ensure_admin conn cur w = (Inr (), w')" "calls w' = calls w @ new" "stdout w' = stdout w @ out"
      "same_setting w w'" "tracking w' = tracking w" "next_conn w' = next_conn w"
      "open_conns w' = open_conns w"
      "(new = [Execute cur (SelectUser (lit ''admin''))] \<and> (\<exists>e. out = [line_warn_admin e]) \<and> target w' = target w) \<or>
       (new = [Execute cur (SelectUser (lit ''admin''))] \<and> out = [] \<and> target w' = target w \<and>
          0 < admin_rows w \<and> faults w (length (calls w)) = None) \<or>
       (new = [Execute cur (SelectUser (lit ''admin'')), Execute cur (admin_insert w (Some (lit ''admin''))), Commit conn] \<and>
          (out = [line_admin_created] \<or> (\<exists>e. out = [line_warn_admin e])) \<and>
          admin_rows w = 0 \<and> admin_rows w' = 1) \<or>
       (new = [Execute cur (SelectUser (lit ''admin'')), Execute cur (admin_insert w (Some (lit ''admin''))),
               Execute cur (admin_insert w None)] \<and>
          (\<exists>e. out = [line_warn_admin e]) \<and> target w' = target w \<and> admin_rows w = 0) \<or>
       (new = [Execute cur (SelectUser (lit ''admin'')), Execute cur (admin_insert w (Some (lit ''admin''))),
               Execute cur (admin_insert w None), Commit conn] \<and>
          (out = [line_admin_created] \<or> (\<exists>e. out = [line_warn_admin e])) \<and>
          admin_rows w = 0 \<and> admin_rows w' = 1)"
    by blast
  have obs: "lookups new = [] \<and> records new = [] \<and> raw_statements new = []"
    using o(8) by (auto simp: admin_insert_def)
  have seed: "(out = [] \<and> 0 < admin_rows w') \<or> (out = [line_admin_created] \<and> admin_rows w' = 1) \<or>
      (\<exists>e. out = [line_warn_admin e])"
    using o(8) by (auto dest: admin_rows_target)
  from o(1-7) obs seed show ?thesis by blast
qed

text \<open>The whole run, whatever fails.\<close>

lemma main_effect:
  "\<exists>new out. calls (snd (main w)) = calls w @ new \<and> stdout (snd (main w)) = stdout w @ out \<and>
     same_setting w (snd (main w)) \<and>
     prefix (lookups new) (map fst (load_migrations (migrations_dir w))) \<and>
     subseq (records new) (map fst (load_migrations (migrations_dir w))) \<and>
     (line_complete \<in> set out \<longrightarrow>
        fst (main w) = Inr () \<and> lookups new = map fst (load_migrations (migrations_dir w)) \<and>
        (\<exists>pre seed. out = pre @ [line_complete] @ seed \<and>
           ((seed = [] \<and> 0 < admin_rows (snd (main w))) \<or>
            (seed = [line_admin_created] \<and> admin_rows (snd (main w)) = 1) \<or>
            (\<exists>e. seed = [line_warn_admin e])))) \<and>
     (fst (main w) = Inr () \<longrightarrow> out = [line_conn_failed] \<or> line_complete \<in> set out)"
proof (cases "mysql_config (environ w)")
  case (Inl e)
  then have "main w = (Inl e, w)" by (simp add: main_unfold connect_mysql_bad_config)
  then show ?thesis by simp
next
  case (Inr c)
  obtain r w1 where cm: "connect_mysql True w = (r, w1)" by (cases "connect_mysql True w") auto
  from connect_mysql_effect [OF Inr cm] obtain new1 where
    c1: "calls w1 = calls w @ new1" "lookups new1 = []" "records new1 = []"
      "stdout w1 = stdout w" "same_setting w w1" "r = Inr None \<or> (\<exists>k. r = Inr (Some k))"
    by blast
  show ?thesis
  proof (cases "r = Inr None")
    case True
    with cm have "main w = (Inr (), w1\<lparr>stdout := stdout w1 @ [line_conn_failed]\<rparr>)"
      by (simp add: main_unfold)
    with c1 show ?thesis
      by (intro exI [of _ new1] exI [of _ "[line_conn_failed]"])
         (simp add: loop_line_not_complete(4) [symmetric])
  next
    case False
    with c1(6) obtain conn where r: "r = Inr (Some conn)" by blast
    obtain r2 w2 where mp: "migrate_part conn w1 = (r2, w2)" by (cases "migrate_part conn w1") auto
    have md: "migrations_dir w1 = migrations_dir w" using c1(5) by (simp add: same_setting_def)
    from migrate_part_effect [OF mp] md obtain new2 out2 where
      m: "calls w2 = calls w1 @ new2" "stdout w2 = stdout w1 @ out2" "same_setting w1 w2"
        "prefix (lookups new2) (map fst (load_migrations (migrations_dir w)))"
        "subseq (records new2) (map fst (load_migrations (migrations_dir w)))"
        "r2 = Inr () \<longrightarrow> lookups new2 = map fst (load_migrations (migrations_dir w))"
        "\<forall>l\<in>set out2. l \<noteq> line_complete"
      by auto
    show ?thesis
    proof (cases r2)
      case (Inl e)
      with cm r mp have "main w = (Inl e, w2)" by (simp add: main_unfold)
      with c1 m show ?thesis
        by (intro exI [of _ "new1 @ new2"] exI [of _ out2])
           (auto simp: same_setting_def)
    next
      case r2: (Inr u)
      define w3 where "w3 = w2\<lparr>stdout := stdout w2 @ [line_complete]\<rparr>"
      from cm r mp r2 have mw: "main w = ensure_admin conn conn w3"
        by (simp add: main_unfold w3_def)
      from ensure_admin_effect [of conn conn w3] obtain w' new3 seed where
        e: "ensure_admin conn conn w3 = (Inr (), w')" "calls w' = calls w3 @ new3"
          "lookups new3 = []" "records new3 = []"
          "stdout w' = stdout w3 @ seed" "same_setting w3 w'"
          "(seed = [] \<and> 0 < admin_rows w') \<or> (seed = [line_admin_created] \<and> admin_rows w' = 1) \<or>
           (\<exists>e. seed = [line_warn_admin e])"
        by blast
      have main: "main w = (Inr (), w')" using mw e(1) by simp
      have a1: "calls (snd (main w)) = calls w @ new1 @ new2 @ new3"
        using main e(2) m(1) c1(1) by (simp add: w3_def)
      have a2: "stdout (snd (main w)) = stdout w @ out2 @ [line_complete] @ seed"
        using main e(5) m(2) c1(4) by (simp add: w3_def)
      have a3: "same_setting w (snd (main w))"
        using main e(6) m(3) c1(5) by (simp add: w3_def same_setting_def)
      have a4: "prefix (lookups (new1 @ new2 @ new3)) (map fst (load_migrations (migrations_dir w)))"
        using c1(2) e(3) m(4) by simp
      have a5: "subseq (records (new1 @ new2 @ new3)) (map fst (load_migrations (migrations_dir w)))"
        using c1(3) e(4) m(5) by simp
      have a6: "fst (main w) = Inr ()" using main by simp
      have a7: "lookups (new1 @ new2 @ new3) = map fst (load_migrations (migrations_dir w))"
        using c1(2) e(3) m(6) r2 by simp
      have a8: "\<exists>pre seed'. out2 @ [line_complete] @ seed = pre @ [line_complete] @ seed' \<and>
           ((seed' = [] \<and> 0 < admin_rows (snd (main w))) \<or>
            (seed' = [line_admin_created] \<and> admin_rows (snd (main w)) = 1) \<or>
            (\<exists>e. seed' = [line_warn_admin e]))"
        using e(7) main by (intro exI [of _ out2] exI [of _ seed]) simp
      have a9: "line_complete \<in> set (out2 @ [line_complete] @ seed)" by simp
      show ?thesis
        apply (rule exI [of _ "new1 @ new2 @ new3"])
        apply (rule exI [of _ "out2 @ [line_complete] @ seed"])
        using a1 a2 a3 a4 a5 a6 a7 a8 a9 by blast
    qed
  qed
qed

section \<open>A run on a database without tables\<close>

lemma bare_world_connect:
  "connect_mysql True bare_world =
     (Inr (Some 0), bare_world\<lparr>calls := [Connect PyMySQL (Some (lit ''todolist''))],
        next_conn := 1, open_conns := [0]\<rparr>)"
  by (simp add: connect_mysql_def connect_with_def connect_def import_driver_def io_defs Let_def
        bare_world_def plain_world_def mysql_config_empty)

lemma bare_world_run:
  "main bare_world =
     (Inr (), bare_world
        \<lparr> calls := [Connect PyMySQL (Some (lit ''todolist'')), Cursor 0, Execute 0 CreateTrackingTable,
                    Commit 0, Execute 0 (SelectUser (lit ''admin''))],
          next_conn := 1, open_conns := [0],
          target := Some (empty_db\<lparr>schema_migrations := Some []\<rparr>),
          stdout := [line_complete, line_warn_admin (DBError (lit ''Table users does not exist''))] \<rparr>)"
proof -
  let ?w1 = "bare_world\<lparr>calls := [Connect PyMySQL (Some (lit ''todolist''))],
        next_conn := 1, open_conns := [0]\<rparr>"
  let ?w2 = "bare_world\<lparr>calls := [Connect PyMySQL (Some (lit ''todolist'')), Cursor 0,
        Execute 0 CreateTrackingTable, Commit 0],
        next_conn := 1, open_conns := [0], target := Some (empty_db\<lparr>schema_migrations := Some []\<rparr>)\<rparr>"
  have mp: "migrate_part 0 ?w1 = (Inr (), ?w2)"
    by (simp add: migrate_part_def and_then_def cursor_eq commit_eq execute_def driver_call_def
          ret_def Let_def load_migrations_def bare_world_def plain_world_def empty_db_def)
  have ea: "ensure_admin 0 0 (?w2\<lparr>stdout := stdout ?w2 @ [line_complete]\<rparr>) =
     (Inr (), bare_world
        \<lparr> calls := [Connect PyMySQL (Some (lit ''todolist'')), Cursor 0, Execute 0 CreateTrackingTable,
                    Commit 0, Execute 0 (SelectUser (lit ''admin''))],
          next_conn := 1, open_conns := [0],
          target := Some (empty_db\<lparr>schema_migrations := Some []\<rparr>),
          stdout := [line_complete, line_warn_admin (DBError (lit ''Table users does not exist''))] \<rparr>)"
    by (simp add: ensure_admin_unfold execute_def driver_call_def Let_def
          bare_world_def plain_world_def empty_db_def)
  show ?thesis
    unfolding main_unfold bare_world_connect using mp ea by simp
qed

text \<open>
  Claim C9. The run releases its connection at the end, on every exit path. \<open>main\<close> has no
  call to \<open>close\<close>: after a run that returns normally the connection it acquired is still
  open, and no \<open>Close\<close> is among the driver calls.
\<close>

theorem main_leaves_connection_open:
  "fst (main bare_world) = Inr () \<and>
   open_conns (snd (main bare_world)) = [0] \<and>
   calls (snd (main bare_world)) =
     [Connect PyMySQL (Some (lit ''todolist'')), Cursor 0, Execute 0 CreateTrackingTable,
      Commit 0, Execute 0 (SelectUser (lit ''admin''))]"
  by (simp add: bare_world_run)

section \<open>A seeding step that fails\<close>

lemma ensure_admin_fallback:
  assumes s: "execute cur (SelectUser (lit ''admin'')) w = (Inr 0, w0)"
    and i1: "execute cur (admin_insert w (Some (lit ''admin''))) w0 = (Inl e, w1)"
  shows "prefix [Execute cur (SelectUser (lit ''admin'')),
                 Execute cur (admin_insert w (Some (lit ''admin''))),
                 Execute cur (admin_insert w None)]
           (new_calls w (snd (ensure_admin conn cur w))) \<and>
     (\<forall>m w2. execute cur (admin_insert w None) w1 = (Inr m, w2) \<and> faults w (length (calls w2)) = None \<longrightarrow>
        new_lines w (snd (ensure_admin conn cur w)) = [line_admin_created] \<and>
        admin_rows (snd (ensure_admin conn cur w)) = 1)"
proof -
  note e0 = execute_effect [OF s] and e1 = execute_effect [OF i1]
  obtain r2 w2 where i2: "execute cur (admin_insert w None) w1 = (r2, w2)"
    by (cases "execute cur (admin_insert w None) w1") auto
  note e2 = execute_effect [OF i2]
  have c2: "calls w2 = calls w @ [Execute cur (SelectUser (lit ''admin'')),
                 Execute cur (admin_insert w (Some (lit ''admin''))),
                 Execute cur (admin_insert w None)]"
    and o2: "stdout w2 = stdout w" and f2: "faults w2 = faults w"
    using e0 e1 e2 by (simp_all add: same_setting_def)
  note a2 = insert_admin_effect [OF i2 [unfolded admin_insert_def]]
  show ?thesis
  proof (cases r2)
    case (Inl x)
    with s i1 i2 have "ensure_admin conn cur w = (Inr (), w2\<lparr>stdout := stdout w2 @ [line_warn_admin x]\<rparr>)"
      by (simp add: ensure_admin_unfold)
    with c2 i2 Inl show ?thesis by (simp add: new_calls_def)
  next
    case (Inr m)
    obtain r3 w3 where c: "commit conn w2 = (r3, w3)" by (cases "commit conn w2") auto
    note c3 = commit_effect [OF c]
    from s i1 i2 Inr c have ea: "ensure_admin conn cur w =
        (Inr (), w3\<lparr>stdout := stdout w3 @
           [case r3 of Inl e \<Rightarrow> line_warn_admin e | Inr u \<Rightarrow> line_admin_created]\<rparr>)"
      by (simp add: ensure_admin_unfold split: sum.splits)
    have rows: "admin_rows w3 = 1" using a2 Inr c3 by simp
    have ok: "r3 = Inr ()" if "faults w (length (calls w2)) = None"
      using c3 that f2 by simp
    show ?thesis
      using ea c2 c3 o2 i2 rows ok by (auto simp: new_calls_def new_lines_def)
  qed
qed

text \<open>
  Claim C7. The seeding step never raises. When the lookup finds no row and the insertion
  with the role fails, the insertion without the role column is sent next, and if it and
  the commit succeed the account exists and the confirmation is printed. When no
  administrative row exists after the step, a warning was printed. In a run of \<open>main\<close> that
  has printed \<open>Migrations complete.\<close>, \<open>main\<close> returns normally whatever the seeding step
  did, and the warning is the last line when no administrative row exists.
\<close>

theorem seeding_failure_is_lenient:
  "(\<exists>w'. ensure_admin conn cur w = (Inr (), w')) \<and>
   (\<forall>w0 e w1. execute cur (SelectUser (lit ''admin'')) w = (Inr 0, w0) \<and>
        execute cur (admin_insert w (Some (lit ''admin''))) w0 = (Inl e, w1) \<longrightarrow>
      prefix [Execute cur (SelectUser (lit ''admin'')),
              Execute cur (admin_insert w (Some (lit ''admin''))),
              Execute cur (admin_insert w None)]
        (new_calls w (snd (ensure_admin conn cur w))) \<and>
      (\<forall>m w2. execute cur (admin_insert w None) w1 = (Inr m, w2) \<and> faults w (length (calls w2)) = None \<longrightarrow>
         new_lines w (snd (ensure_admin conn cur w)) = [line_admin_created] \<and>
         admin_rows (snd (ensure_admin conn cur w)) = 1)) \<and>
   (admin_rows (snd (ensure_admin conn cur w)) = 0 \<longrightarrow>
      (\<exists>e. new_lines w (snd (ensure_admin conn cur w)) = [line_warn_admin e])) \<and>
   (line_complete \<in> set (new_lines v (snd (main v))) \<longrightarrow>
      fst (main v) = Inr () \<and>
      (admin_rows (snd (main v)) = 0 \<longrightarrow> (\<exists>e. last (stdout (snd (main v))) = line_warn_admin e)))"
proof (intro conjI allI impI)
  show "\<exists>w'. ensure_admin conn cur w = (Inr (), w')"
    using ensure_admin_effect [of conn cur w] by blast
next
  fix w0 e w1
  assume a: "execute cur (SelectUser (lit ''admin'')) w = (Inr 0, w0) \<and>
        execute cur (admin_insert w (Some (lit ''admin''))) w0 = (Inl e, w1)"
  then have s: "execute cur (SelectUser (lit ''admin'')) w = (Inr 0, w0)"
    and i1: "execute cur (admin_insert w (Some (lit ''admin''))) w0 = (Inl e, w1)"
    by simp_all
  note fb = ensure_admin_fallback [OF s i1, of conn]
  show "prefix [Execute cur (SelectUser (lit ''admin'')),
              Execute cur (admin_insert w (Some (lit ''admin''))),
              Execute cur (admin_insert w None)]
        (new_calls w (snd (ensure_admin conn cur w)))"
    using fb by simp
  fix m w2
  assume b: "execute cur (admin_insert w None) w1 = (Inr m, w2) \<and> faults w (length (calls w2)) = None"
  with fb show "new_lines w (snd (ensure_admin conn cur w)) = [line_admin_created]"
    and "admin_rows (snd (ensure_admin conn cur w)) = 1"
    by blast+
next
  assume "admin_rows (snd (ensure_admin conn cur w)) = 0"
  with ensure_admin_effect [of conn cur w]
  show "\<exists>e. new_lines w (snd (ensure_admin conn cur w)) = [line_warn_admin e]"
    by (auto simp: new_lines_def)
next
  assume lc: "line_complete \<in> set (new_lines v (snd (main v)))"
  from main_effect [of v] obtain new out where
    m: "stdout (snd (main v)) = stdout v @ out"
      "line_complete \<in> set out \<longrightarrow>
        fst (main v) = Inr () \<and> lookups new = map fst (load_migrations (migrations_dir v)) \<and>
        (\<exists>pre seed. out = pre @ [line_complete] @ seed \<and>
           ((seed = [] \<and> 0 < admin_rows (snd (main v))) \<or>
            (seed = [line_admin_created] \<and> admin_rows (snd (main v)) = 1) \<or>
            (\<exists>e. seed = [line_warn_admin e])))"
    by blast
  from lc m(1) have "line_complete \<in> set out" by (simp add: new_lines_def)
  with m(2) obtain pre seed where
    r: "fst (main v) = Inr ()" and out: "out = pre @ [line_complete] @ seed"
    and seed: "(seed = [] \<and> 0 < admin_rows (snd (main v))) \<or>
            (seed = [line_admin_created] \<and> admin_rows (snd (main v)) = 1) \<or>
            (\<exists>e. seed = [line_warn_admin e])"
    by blast
  show "fst (main v) = Inr ()" by (rule r)
  assume "admin_rows (snd (main v)) = 0"
  with seed obtain e where "seed = [line_warn_admin e]" by auto
  with m(1) out show "\<exists>e. last (stdout (snd (main v))) = line_warn_admin e" by auto
qed

lemma legacy_users_seed:
  "execute 0 (SelectUser (lit ''admin'')) legacy_users_world =
     (Inr 0, legacy_users_world\<lparr>calls := [Execute 0 (SelectUser (lit ''admin''))]\<rparr>) \<and>
   execute 0 (admin_insert legacy_users_world (Some (lit ''admin'')))
       (legacy_users_world\<lparr>calls := [Execute 0 (SelectUser (lit ''admin''))]\<rparr>) =
     (Inl (DBError (lit ''Data truncated for column role'')),
      legacy_users_world\<lparr>calls := [Execute 0 (SelectUser (lit ''admin'')),
         Execute 0 (admin_insert legacy_users_world (Some (lit ''admin'')))]\<rparr>) \<and>
   fst (execute 0 (admin_insert legacy_users_world None)
       (legacy_users_world\<lparr>calls := [Execute 0 (SelectUser (lit ''admin'')),
         Execute 0 (admin_insert legacy_users_world (Some (lit ''admin'')))]\<rparr>)) = Inr 0"
  by (simp add: execute_def driver_call_def Let_def admin_insert_def legacy_users_world_def
        plain_world_def users_db_def lit_def)

theorem seeding_failure_is_lenient_witness:
  "new_lines legacy_users_world (snd (ensure_admin 0 0 legacy_users_world)) = [line_admin_created] \<and>
   admin_rows (snd (ensure_admin 0 0 legacy_users_world)) = 1 \<and>
   admin_rows (snd (ensure_admin 0 0 bare_world)) = 0 \<and>
   (\<exists>e. new_lines bare_world (snd (ensure_admin 0 0 bare_world)) = [line_warn_admin e]) \<and>
   line_complete \<in> set (new_lines bare_world (snd (main bare_world))) \<and>
   fst (main bare_world) = Inr () \<and>
   (\<exists>e. last (stdout (snd (main bare_world))) = line_warn_admin e)"
proof -
  let ?w = legacy_users_world
  let ?wa = "?w\<lparr>calls := [Execute 0 (SelectUser (lit ''admin''))]\<rparr>"
  let ?wb = "?w\<lparr>calls := [Execute 0 (SelectUser (lit ''admin'')),
         Execute 0 (admin_insert ?w (Some (lit ''admin'')))]\<rparr>"
  obtain w2 where i2: "execute 0 (admin_insert ?w None) ?wb = (Inr 0, w2)"
    using legacy_users_seed by (cases "execute 0 (admin_insert ?w None) ?wb") auto
  have c2: "length (calls w2) = 3" using execute_effect [OF i2] by simp
  have f: "faults ?w (length (calls w2)) = None"
    by (simp add: legacy_users_world_def plain_world_def)
  note t = seeding_failure_is_lenient [of 0 0 ?w bare_world]
  from t legacy_users_seed i2 f
  have a: "new_lines ?w (snd (ensure_admin 0 0 ?w)) = [line_admin_created] \<and>
           admin_rows (snd (ensure_admin 0 0 ?w)) = 1"
    by blast
  have b0: "admin_rows (snd (ensure_admin 0 0 bare_world)) = 0"
    using ensure_admin_rows [of bare_world 0 0]
    by (simp add: admin_rows_def ensure_admin_unfold execute_def driver_call_def Let_def
          bare_world_def plain_world_def empty_db_def)
  with seeding_failure_is_lenient [of 0 0 bare_world bare_world]
  have b: "\<exists>e. new_lines bare_world (snd (ensure_admin 0 0 bare_world)) = [line_warn_admin e]"
    by blast
  have c: "line_complete \<in> set (new_lines bare_world (snd (main bare_world)))"
    by (simp add: bare_world_run new_lines_def) (simp add: bare_world_def plain_world_def)
  have d0: "admin_rows (snd (main bare_world)) = 0"
    by (simp add: bare_world_run admin_rows_def empty_db_def)
  with seeding_failure_is_lenient [of 0 0 bare_world bare_world] c
  have d: "fst (main bare_world) = Inr () \<and> (\<exists>e. last (stdout (snd (main bare_world))) = line_warn_admin e)"
    by blast
  from a b0 b c d show ?thesis by blast
qed

section \<open>A migration file with failing statements\<close>





lemma plain_engine_keeps_tracking: "keeps_tracking (engine (plain_world db dir))"
  by (simp add: keeps_tracking_def plain_world_def)


section \<open>A run in which only statements of the files fail\<close>





lemma main_connected_nominal:
  assumes cfg: "mysql_config (environ w) = Inr c"
    and cm: "connect_mysql True w = (Inr (Some conn), w1)"
    and kt: "keeps_tracking (engine w)" and nf: "no_faults_from w (length (calls w1))"
    and dist: "distinct (map fst (migrations_dir w))"
  shows "\<exists>w' new blocks seed. main w = (Inr (), w') \<and>
     calls w' = calls w1 @ [Cursor conn, Execute conn CreateTrackingTable, Commit conn] @ new \<and>
     lookups new = map fst (load_migrations (migrations_dir w)) \<and>
     records new = filter (\<lambda>n. n \<notin> set (recorded w)) (map fst (load_migrations (migrations_dir w))) \<and>
     raw_statements new =
       concat (map (\<lambda>p. statements (snd p))
                (filter (\<lambda>p. fst p \<notin> set (recorded w)) (load_migrations (migrations_dir w)))) \<and>
     tracking w' =
       Some (recorded w @ filter (\<lambda>n. n \<notin> set (recorded w)) (map fst (load_migrations (migrations_dir w)))) \<and>
     stdout w' = stdout w @ concat blocks @ [line_complete] @ seed \<and>
     list_all2 (unit_block (recorded w)) (load_migrations (migrations_dir w)) blocks \<and>
     ((seed = [] \<and> 0 < admin_rows w') \<or> (seed = [line_admin_created] \<and> admin_rows w' = 1) \<or>
      (\<exists>e. seed = [line_warn_admin e])) \<and>
     same_setting w w'"
proof -
  let ?paths = "load_migrations (migrations_dir w)"
  from connect_mysql_effect [OF cfg cm]
  have c1: "stdout w1 = stdout w" "same_setting w w1" "tracking w1 = tracking w" "target w1 \<noteq> None"
    by auto
  have f1: "\<And>k. length (calls w1) \<le> k \<Longrightarrow> faults w1 k = None"
    using nf c1(2) by (simp add: no_faults_from_def same_setting_def)
  have rec1: "recorded w1 = recorded w" using c1(3) by (simp add: recorded_def)
  have md1: "migrations_dir w1 = migrations_dir w" using c1(2) by (simp add: same_setting_def)
  from migrate_part_started [of w1 conn] f1 c1(4) md1 rec1 obtain w3 where
    w3: "migrate_part conn w1 = apply_pending conn conn ?paths w3"
      "calls w3 = calls w1 @ [Cursor conn, Execute conn CreateTrackingTable, Commit conn]"
      "stdout w3 = stdout w1" "same_setting w1 w3" "tracking w3 = Some (recorded w)"
    by auto
  have p3: "keeps_tracking (engine w3)" "no_faults_from w3 (length (calls w3))"
    using kt f1 c1(2) w3(2,4) by (simp_all add: same_setting_def no_faults_from_def)
  from apply_pending_nominal [OF p3 w3(5) load_migrations_distinct [OF dist], of conn conn]
  obtain w2 new2 blocks where
    ap: "apply_pending conn conn ?paths w3 = (Inr (), w2)" "calls w2 = calls w3 @ new2"
      "tracking w2 = Some (recorded w @ filter (\<lambda>n. n \<notin> set (recorded w)) (map fst ?paths))"
      "records new2 = filter (\<lambda>n. n \<notin> set (recorded w)) (map fst ?paths)"
      "raw_statements new2 =
         concat (map (\<lambda>p. statements (snd p)) (filter (\<lambda>p. fst p \<notin> set (recorded w)) ?paths))"
      "stdout w2 = stdout w3 @ concat blocks" "list_all2 (unit_block (recorded w)) ?paths blocks"
    by blast
  from apply_pending_effect [OF ap(1)] ap(2)
  have ap': "lookups new2 = map fst ?paths" "same_setting w3 w2" by auto
  define w4 where "w4 = w2\<lparr>stdout := stdout w2 @ [line_complete]\<rparr>"
  have mw: "main w = ensure_admin conn conn w4"
    using cm w3(1) ap(1) by (simp add: main_unfold w4_def)
  from ensure_admin_effect [of conn conn w4] obtain w' new3 seed where
    e: "ensure_admin conn conn w4 = (Inr (), w')" "calls w' = calls w4 @ new3"
      "lookups new3 = []" "records new3 = []" "raw_statements new3 = []"
      "stdout w' = stdout w4 @ seed" "same_setting w4 w'" "tracking w' = tracking w4"
      "(seed = [] \<and> 0 < admin_rows w') \<or> (seed = [line_admin_created] \<and> admin_rows w' = 1) \<or>
       (\<exists>e. seed = [line_warn_admin e])"
    by blast
  have g1: "main w = (Inr (), w')" using mw e(1) by simp
  have g2: "calls w' = calls w1 @ [Cursor conn, Execute conn CreateTrackingTable, Commit conn] @ (new2 @ new3)"
    using e(2) ap(2) w3(2) by (simp add: w4_def)
  have g3: "lookups (new2 @ new3) = map fst ?paths" using ap'(1) e(3) by simp
  have g4: "records (new2 @ new3) = filter (\<lambda>n. n \<notin> set (recorded w)) (map fst ?paths)"
    using ap(4) e(4) by simp
  have g5: "raw_statements (new2 @ new3) =
      concat (map (\<lambda>p. statements (snd p)) (filter (\<lambda>p. fst p \<notin> set (recorded w)) ?paths))"
    using ap(5) e(5) by simp
  have g6: "tracking w' = Some (recorded w @ filter (\<lambda>n. n \<notin> set (recorded w)) (map fst ?paths))"
    using e(8) ap(3) by (simp add: w4_def)
  have g7: "stdout w' = stdout w @ concat blocks @ [line_complete] @ seed"
    using e(6) ap(6) w3(3) c1(1) by (simp add: w4_def)
  have g8: "same_setting w w'"
    using e(7) ap'(2) w3(4) c1(2) by (simp add: w4_def same_setting_def)
  show ?thesis
    apply (rule exI [of _ w'])
    apply (rule exI [of _ "new2 @ new3"])
    apply (rule exI [of _ blocks])
    apply (rule exI [of _ seed])
    using g1 g2 g3 g4 g5 g6 g7 g8 ap(7) e(9) by blast
qed

section \<open>What the operator sees\<close>


lemma migrating_world_connect:
  "connect_mysql True migrating_world =
     (Inr (Some 0), migrating_world\<lparr>calls := [Connect PyMySQL (Some (lit ''todolist''))],
        next_conn := 1, open_conns := [0]\<rparr>)"
  by (simp add: connect_mysql_def connect_with_def connect_def import_driver_def io_defs Let_def
        migrating_world_def plain_world_def mysql_config_empty)

lemma migrating_world_setting:
  "mysql_config (environ migrating_world) =
     Inr \<lparr> host = lit ''127.0.0.1'', port = 3306, user = lit ''root'', password = lit ''root@123'',
           database = lit ''todolist'' \<rparr>"
  "keeps_tracking (engine migrating_world)"
  "no_faults_from migrating_world n"
  "distinct (map fst (migrations_dir migrating_world))"
  "recorded migrating_world = []"
  "calls migrating_world = []"
  by (simp_all add: migrating_world_def plain_engine_keeps_tracking no_faults_from_def recorded_def
        tracking_def)
     (simp_all add: plain_world_def mysql_config_empty users_db_def)





section \<open>The order of application\<close>

text \<open>
  Claim C3. \<open>load_migrations\<close> returns the \<open>.sql\<close> entries of the directory, each once,
  sorted by name, whatever the order of the listing. Every run of \<open>main\<close> looks the files
  up in that order and records a subsequence of it; a run that reaches the completion
  line has gone through all of them; and when only statements of the files fail, the
  files recorded and the statements sent are those of the pending files, in name order.
\<close>

theorem migrations_in_name_order:
  "sorted (map fst (load_migrations dir)) \<and>
   mset (load_migrations dir) = mset (filter (\<lambda>p. is_sql (fst p)) dir) \<and>
   (distinct (map fst dir) \<and> mset dir' = mset dir \<longrightarrow> load_migrations dir' = load_migrations dir) \<and>
   prefix (lookups (new_calls w (snd (main w)))) (map fst (load_migrations (migrations_dir w))) \<and>
   subseq (records (new_calls w (snd (main w)))) (map fst (load_migrations (migrations_dir w))) \<and>
   (line_complete \<in> set (new_lines w (snd (main w))) \<longrightarrow>
      lookups (new_calls w (snd (main w))) = map fst (load_migrations (migrations_dir w))) \<and>
   (\<forall>c conn w1. mysql_config (environ w) = Inr c \<and> connect_mysql True w = (Inr (Some conn), w1) \<and>
        keeps_tracking (engine w) \<and> no_faults_from w (length (calls w1)) \<and>
        distinct (map fst (migrations_dir w)) \<longrightarrow>
      records (new_calls w (snd (main w))) =
        filter (\<lambda>n. n \<notin> set (recorded w)) (map fst (load_migrations (migrations_dir w))) \<and>
      raw_statements (new_calls w (snd (main w))) =
        concat (map (\<lambda>p. statements (snd p))
                 (filter (\<lambda>p. fst p \<notin> set (recorded w)) (load_migrations (migrations_dir w)))))"
proof -
  from main_effect [of w] obtain new out where
    m: "calls (snd (main w)) = calls w @ new" "stdout (snd (main w)) = stdout w @ out"
      "prefix (lookups new) (map fst (load_migrations (migrations_dir w)))"
      "subseq (records new) (map fst (load_migrations (migrations_dir w)))"
      "line_complete \<in> set out \<longrightarrow> lookups new = map fst (load_migrations (migrations_dir w))"
    by blast
  have nc: "new_calls w (snd (main w)) = new" using m(1) by (simp add: new_calls_def)
  have nl: "new_lines w (snd (main w)) = out" using m(2) by (simp add: new_lines_def)
  have nominal: "records new =
        filter (\<lambda>n. n \<notin> set (recorded w)) (map fst (load_migrations (migrations_dir w))) \<and>
      raw_statements new =
        concat (map (\<lambda>p. statements (snd p))
                 (filter (\<lambda>p. fst p \<notin> set (recorded w)) (load_migrations (migrations_dir w))))"
    if a: "mysql_config (environ w) = Inr c \<and> connect_mysql True w = (Inr (Some conn), w1) \<and>
        keeps_tracking (engine w) \<and> no_faults_from w (length (calls w1)) \<and>
        distinct (map fst (migrations_dir w))" for c conn w1
  proof -
    from a have cfg: "mysql_config (environ w) = Inr c"
      and cm: "connect_mysql True w = (Inr (Some conn), w1)" by simp_all
    from connect_mysql_effect [OF cfg cm] obtain new1 where
      c1: "calls w1 = calls w @ new1" "records new1 = []" "raw_statements new1 = []"
      by blast
    from main_connected_nominal [OF cfg cm] a obtain w' new2 where
      n: "main w = (Inr (), w')"
        "calls w' = calls w1 @ [Cursor conn, Execute conn CreateTrackingTable, Commit conn] @ new2"
        "records new2 = filter (\<lambda>n. n \<notin> set (recorded w)) (map fst (load_migrations (migrations_dir w)))"
        "raw_statements new2 =
           concat (map (\<lambda>p. statements (snd p))
                    (filter (\<lambda>p. fst p \<notin> set (recorded w)) (load_migrations (migrations_dir w))))"
      by blast
    from m(1) n(1,2) c1(1)
    have "new = new1 @ [Cursor conn, Execute conn CreateTrackingTable, Commit conn] @ new2" by simp
    with c1(2,3) n(3,4) show ?thesis by simp
  qed
  show ?thesis
    unfolding nc nl
    using load_migrations_sorted [of dir] load_migrations_mset [of dir]
      load_migrations_perm [of dir dir'] m(3,4,5) nominal
    by blast
qed

lemma ordered_dir_loaded: "load_migrations ordered_dir = ordered_dir"
  by (simp add: load_migrations_def ordered_dir_def is_sql_def lit_def)

lemma plain_world_connect:
  "connect_mysql True (plain_world (Some d) dir) =
     (Inr (Some 0), (plain_world (Some d) dir)\<lparr>calls := [Connect PyMySQL (Some (lit ''todolist''))],
        next_conn := 1, open_conns := [0]\<rparr>)"
  by (simp add: connect_mysql_def connect_with_def connect_def import_driver_def io_defs Let_def
        plain_world_def mysql_config_empty)

lemma plain_world_setting:
  "mysql_config (environ (plain_world db dir)) =
     Inr \<lparr> host = lit ''127.0.0.1'', port = 3306, user = lit ''root'', password = lit ''root@123'',
           database = lit ''todolist'' \<rparr>"
  "no_faults_from (plain_world db dir) n"
  "migrations_dir (plain_world db dir) = dir"
  "calls (plain_world db dir) = []"
  "recorded (plain_world (Some (tracked_db ns)) dir) = ns"
  by (simp_all add: no_faults_from_def recorded_def tracking_def plain_world_def mysql_config_empty
        tracked_db_def)

theorem migrations_in_name_order_witness:
  "distinct (map fst ordered_dir) \<and> mset listed_dir = mset ordered_dir \<and>
   load_migrations listed_dir = ordered_dir \<and>
   records (new_calls (plain_world (Some (tracked_db [])) listed_dir)
              (snd (main (plain_world (Some (tracked_db [])) listed_dir)))) =
     [lit ''0001_init.sql'', lit ''0002_add_column.sql'', lit ''0010_add_index.sql''] \<and>
   raw_statements (new_calls (plain_world (Some (tracked_db [])) listed_dir)
              (snd (main (plain_world (Some (tracked_db [])) listed_dir)))) =
     [lit ''A'', lit ''B'', lit ''C''] \<and>
   line_complete \<in> set (new_lines migrating_world (snd (main migrating_world))) \<and>
   lookups (new_calls migrating_world (snd (main migrating_world))) = [lit ''0001_init.sql'']"
proof -
  let ?W = "plain_world (Some (tracked_db [])) listed_dir"
  have d: "distinct (map fst ordered_dir)" by (simp add: ordered_dir_def lit_def)
  have p: "mset listed_dir = mset ordered_dir" by (simp add: listed_dir_def ordered_dir_def)
  from migrations_in_name_order [of ordered_dir listed_dir] d p
  have a: "load_migrations listed_dir = ordered_dir" by (simp add: ordered_dir_loaded)
  have dl: "distinct (map fst listed_dir)" by (simp add: listed_dir_def lit_def)
  have st: "concat (map (\<lambda>p. statements (snd p)) ordered_dir) = [lit ''A'', lit ''B'', lit ''C'']"
    by (simp add: ordered_dir_def statements_def lit_def strip_def isspace_def)
  have nm: "map fst ordered_dir = [lit ''0001_init.sql'', lit ''0002_add_column.sql'', lit ''0010_add_index.sql'']"
    by (simp add: ordered_dir_def)
  from migrations_in_name_order [of "[]" "[]" ?W]
    plain_world_setting(1) [of "Some (tracked_db [])" listed_dir]
    plain_world_connect [of "tracked_db []" listed_dir]
    plain_engine_keeps_tracking [of "Some (tracked_db [])" listed_dir]
    plain_world_setting(2) [of "Some (tracked_db [])" listed_dir 1] dl
  have b: "records (new_calls ?W (snd (main ?W))) = map fst ordered_dir \<and>
     raw_statements (new_calls ?W (snd (main ?W))) = concat (map (\<lambda>p. statements (snd p)) ordered_dir)"
    by (simp add: plain_world_setting(3,5) a)
  from main_connected_nominal [OF migrating_world_setting(1) migrating_world_connect
      migrating_world_setting(2) migrating_world_setting(3) migrating_world_setting(4)]
  have c: "line_complete \<in> set (new_lines migrating_world (snd (main migrating_world)))"
    by (auto simp: new_lines_def)
  have md: "migrations_dir migrating_world = [three_statement_file]"
    by (simp add: migrating_world_def plain_world_def)
  have lm: "load_migrations [three_statement_file] = [three_statement_file]"
    by (simp add: load_migrations_def three_statement_file_def is_sql_def lit_def)
  have n: "fst three_statement_file = lit ''0001_init.sql''" by (simp add: three_statement_file_def)
  from c migrations_in_name_order [of "[]" "[]" migrating_world]
  have e: "lookups (new_calls migrating_world (snd (main migrating_world))) = [lit ''0001_init.sql'']"
    by (simp add: md lm n)
  from d p a b c e show ?thesis by (simp add: st nm)
qed

section \<open>Running twice\<close>





end
